theory Spec2Isabelle
  imports Complex_Main "HOL-Library.Word" "HOL-Library.Signed_Division"
begin

section \<open>DataQueue: the bounded blocking queue\<close>

text \<open>
  \<^verbatim>\<open>DataQueue<T>\<close> holds a \<^verbatim>\<open>std::deque<T> queue_\<close>, the bound
  \<^verbatim>\<open>size_t maxSize_\<close> and the flag \<^verbatim>\<open>bool shutdown_\<close>. Every member function
  takes \<^verbatim>\<open>mutex_\<close> first, so each one is a critical section on these three fields;
  the only places where the mutex is given up inside a call are the two condition
  variable waits of \<^verbatim>\<open>enqueue\<close> and \<^verbatim>\<open>dequeue\<close>. (A member \<^verbatim>\<open>name_\<close> of
  the source is the field \<open>m_name\<close> here, and \<^verbatim>\<open>size\<close> and \<^verbatim>\<open>empty\<close> carry the
  suffix \<open>_q\<close>.) The capacity is a \<^verbatim>\<open>size_t\<close>, a natural number here.
\<close>

record 'a DataQueue =
  m_queue :: "'a list"
  m_maxSize :: nat
  m_shutdown :: bool

definition DataQueue :: "nat \<Rightarrow> 'a DataQueue" where
  "DataQueue maxSize = \<lparr>m_queue = [], m_maxSize = maxSize, m_shutdown = False\<rparr>"

text \<open>The two wait predicates, as the lambdas of the source state them.\<close>

definition notFull_pred :: "'a DataQueue \<Rightarrow> bool" where
  "notFull_pred q = (length (m_queue q) < m_maxSize q \<and> \<not> m_shutdown q)"

definition notEmpty_pred :: "'a DataQueue \<Rightarrow> bool" where
  "notEmpty_pred q = (m_queue q \<noteq> [] \<or> m_shutdown q)"

subsection \<open>The critical sections\<close>

text \<open>
  What \<^verbatim>\<open>enqueue\<close> does once its wait has returned with the lock held: false when
  \<^verbatim>\<open>shutdown_\<close> is set, else the item is pushed at the back. What \<^verbatim>\<open>dequeue\<close>
  does once its wait has returned: the empty result when the deque is empty, else the
  front item is removed and returned.
\<close>

definition enqueue_tail :: "'a \<Rightarrow> 'a DataQueue \<Rightarrow> bool \<times> 'a DataQueue" where
  "enqueue_tail item q =
     (if m_shutdown q then (False, q)
      else (True, q\<lparr>m_queue := m_queue q @ [item]\<rparr>))"

definition dequeue_tail :: "'a DataQueue \<Rightarrow> 'a option \<times> 'a DataQueue" where
  "dequeue_tail q =
     (case m_queue q of
        [] \<Rightarrow> (None, q)
      | item # rest \<Rightarrow> (Some item, q\<lparr>m_queue := rest\<rparr>))"

definition peek :: "'a DataQueue \<Rightarrow> 'a option" where
  "peek q = (case m_queue q of [] \<Rightarrow> None | x # xs \<Rightarrow> Some x)"

definition size_q :: "'a DataQueue \<Rightarrow> nat" where
  "size_q q = length (m_queue q)"

definition empty_q :: "'a DataQueue \<Rightarrow> bool" where
  "empty_q q = (m_queue q = [])"

definition full :: "'a DataQueue \<Rightarrow> bool" where
  "full q = (length (m_queue q) \<ge> m_maxSize q)"

text \<open>\<^verbatim>\<open>clear()\<close> pops the front until the deque is empty.\<close>

fun pop_all :: "'a list \<Rightarrow> 'a list" where
  "pop_all [] = []"
| "pop_all (x # xs) = pop_all xs"

definition clear :: "'a DataQueue \<Rightarrow> 'a DataQueue" where
  "clear q = q\<lparr>m_queue := pop_all (m_queue q)\<rparr>"

definition shutdown :: "'a DataQueue \<Rightarrow> 'a DataQueue" where
  "shutdown q = q\<lparr>m_shutdown := True\<rparr>"

definition isShutdown :: "'a DataQueue \<Rightarrow> bool" where
  "isShutdown q = m_shutdown q"

subsection \<open>Other threads\<close>

text \<open>
  While a caller sleeps in a wait, other threads run their own critical sections on the
  same queue. What such a section can do to the three fields is one of four things:
  the tail of another \<^verbatim>\<open>enqueue\<close> (which that thread only reaches with the
  not-full predicate true under the lock), the tail of another \<^verbatim>\<open>dequeue\<close>,
  \<^verbatim>\<open>clear\<close> and \<^verbatim>\<open>shutdown\<close>.
\<close>

datatype 'a act = OtherPush 'a | OtherPop | OtherClear | OtherShutdown

fun do_act :: "'a act \<Rightarrow> 'a DataQueue \<Rightarrow> 'a DataQueue" where
  "do_act (OtherPush x) q = (if notFull_pred q then snd (enqueue_tail x q) else q)"
| "do_act OtherPop q = snd (dequeue_tail q)"
| "do_act OtherClear q = clear q"
| "do_act OtherShutdown q = shutdown q"

fun run_acts :: "'a act list \<Rightarrow> 'a DataQueue \<Rightarrow> 'a DataQueue" where
  "run_acts [] q = q"
| "run_acts (a # as) q = run_acts as (do_act a q)"

text \<open>
  The environment of one call: \<open>others e i\<close> lists what the other threads do to the
  queue while the caller sleeps for the \<open>i\<close>-th time, and \<open>wakeups e\<close> is the number
  of times a timed wait is woken (by a notification or spuriously) before its timeout
  expires. Real time is not modelled beyond that. The caller looks at the predicate
  again after every sleep, so no wake-up is ever missed here; a caller that the model
  leaves waiting for ever has no way out in the source either.
\<close>

record 'a env =
  wakeups :: nat
  others :: "nat \<Rightarrow> 'a act list"

definition quiet :: "nat \<Rightarrow> 'a env" where
  "quiet n = \<lparr>wakeups = n, others = (\<lambda>i. [])\<rparr>"

subsection \<open>The condition variable waits\<close>

text \<open>
  \<^verbatim>\<open>cv.wait_for(lock, d, pred)\<close> is, by the standard,
  \<^verbatim>\<open>while (!pred()) if (wait_until(lock, t) == timeout) return pred(); return true;\<close>
  The caller checks the predicate under the lock, sleeps (releasing the lock, so the
  others act), and checks again when woken; at the timeout the predicate's value is
  the result.
\<close>

fun wait_for :: "('a DataQueue \<Rightarrow> bool) \<Rightarrow> nat \<Rightarrow> (nat \<Rightarrow> 'a act list) \<Rightarrow> nat \<Rightarrow> 'a DataQueue
    \<Rightarrow> bool \<times> 'a DataQueue" where
  "wait_for pred 0 oth i q = (pred q, q)"
| "wait_for pred (Suc n) oth i q =
     (if pred q then (True, q) else wait_for pred n oth (Suc i) (run_acts (oth i) q))"

text \<open>
  \<^verbatim>\<open>cv.wait(lock, pred)\<close> is \<^verbatim>\<open>while (!pred()) wait(lock);\<close> and has no
  timeout: it returns only once the predicate holds. A wait that never returns is the
  value \<open>None\<close>.
\<close>

partial_function (option) wait :: "('a DataQueue \<Rightarrow> bool) \<Rightarrow> (nat \<Rightarrow> 'a act list) \<Rightarrow> nat
    \<Rightarrow> 'a DataQueue \<Rightarrow> 'a DataQueue option" where
  "wait pred oth i q =
     (if pred q then Some q else wait pred oth (Suc i) (run_acts (oth i) q))"

subsection \<open>The blocking member functions\<close>

text \<open>
  \<^verbatim>\<open>enqueue(item, timeoutMs)\<close>: a timed wait on the not-full predicate when
  \<^verbatim>\<open>timeoutMs > 0\<close>, which returns false at once when the wait reports a timeout;
  the untimed wait otherwise (the default argument is \<open>-1\<close>). The result is
  \<open>None\<close> when the call never returns.
\<close>

definition enqueue :: "'a \<Rightarrow> int \<Rightarrow> 'a env \<Rightarrow> 'a DataQueue \<Rightarrow> (bool \<times> 'a DataQueue) option" where
  "enqueue item timeoutMs e q =
     (if timeoutMs > 0
      then (case wait_for notFull_pred (wakeups e) (others e) 0 q of
              (False, q') \<Rightarrow> Some (False, q')
            | (True, q') \<Rightarrow> Some (enqueue_tail item q'))
      else (case wait notFull_pred (others e) 0 q of
              None \<Rightarrow> None
            | Some q' \<Rightarrow> Some (enqueue_tail item q')))"

text \<open>
  \<^verbatim>\<open>dequeue(timeoutMs)\<close>: the same two waits on the not-empty predicate, with the
  empty result on a timeout.
\<close>

definition dequeue :: "int \<Rightarrow> 'a env \<Rightarrow> 'a DataQueue \<Rightarrow> ('a option \<times> 'a DataQueue) option" where
  "dequeue timeoutMs e q =
     (if timeoutMs > 0
      then (case wait_for notEmpty_pred (wakeups e) (others e) 0 q of
              (False, q') \<Rightarrow> Some (None, q')
            | (True, q') \<Rightarrow> Some (dequeue_tail q'))
      else (case wait notEmpty_pred (others e) 0 q of
              None \<Rightarrow> None
            | Some q' \<Rightarrow> Some (dequeue_tail q')))"

subsection \<open>Sequences of calls by one thread\<close>

text \<open>
  The state the other threads leave after \<open>n\<close> sleeps of the caller, starting with
  sleep \<open>i\<close>.
\<close>

fun rounds :: "nat \<Rightarrow> (nat \<Rightarrow> 'a act list) \<Rightarrow> nat \<Rightarrow> 'a DataQueue \<Rightarrow> 'a DataQueue" where
  "rounds 0 oth i q = q"
| "rounds (Suc n) oth i q = rounds n oth (Suc i) (run_acts (oth i) q)"

datatype 'a call =
    Enqueue 'a int "'a env"
  | Dequeue int "'a env"
  | Peek | Size | Empty | Full
  | Clear
  | Shutdown
  | IsShutdown

text \<open>
  The queue after one call has returned; \<open>None\<close> when the call never returns. The
  \<^verbatim>\<open>const\<close> member functions only read.
\<close>

fun do_call :: "'a call \<Rightarrow> 'a DataQueue \<Rightarrow> 'a DataQueue option" where
  "do_call (Enqueue item timeoutMs e) q = map_option snd (enqueue item timeoutMs e q)"
| "do_call (Dequeue timeoutMs e) q = map_option snd (dequeue timeoutMs e q)"
| "do_call Clear q = Some (clear q)"
| "do_call Shutdown q = Some (shutdown q)"
| "do_call c q = Some q"

fun calls :: "'a call list \<Rightarrow> 'a DataQueue \<Rightarrow> 'a DataQueue option" where
  "calls [] q = Some q"
| "calls (c # cs) q = (case do_call c q of None \<Rightarrow> None | Some q' \<Rightarrow> calls cs q')"

text \<open>
  Successive \<^verbatim>\<open>dequeue\<close> calls by one thread, each with its own timeout and
  environment; the results are collected in call order.
\<close>

fun dequeues :: "(int \<times> 'a env) list \<Rightarrow> 'a DataQueue \<Rightarrow> ('a option list \<times> 'a DataQueue) option" where
  "dequeues [] q = Some ([], q)"
| "dequeues ((timeoutMs, e) # cs) q =
     (case dequeue timeoutMs e q of
        None \<Rightarrow> None
      | Some (r, q') \<Rightarrow>
          (case dequeues cs q' of None \<Rightarrow> None | Some (rs, q'') \<Rightarrow> Some (r # rs, q'')))"

text \<open>A caller that is waiting in an untimed \<^verbatim>\<open>enqueue\<close> when another thread calls
  \<^verbatim>\<open>shutdown()\<close> during its first sleep, and nothing else happens.\<close>

definition shutdown_while_waiting :: "'a env" where
  "shutdown_while_waiting = \<lparr>wakeups = 0, others = (\<lambda>i. if i = 0 then [OtherShutdown] else [])\<rparr>"

section \<open>Processors\<close>

text \<open>
  \<^verbatim>\<open>StatisticalProcessor<int>\<close>: the members \<^verbatim>\<open>T total_ = 0\<close> and
  \<^verbatim>\<open>int count_ = 0\<close>, both 32-bit signed. \<^verbatim>\<open>process\<close> adds the input to the
  total, increments the count and returns \<^verbatim>\<open>total_ / count_\<close>, the C++ integer
  division, which truncates towards zero. Addition and increment wrap around here (the
  standard leaves signed overflow undefined). The division has no value when the divisor
  is zero or when the quotient does not fit: these are faults of the model.
\<close>

type_synonym int32 = "32 word"

record StatisticalProcessor =
  m_total :: int32
  m_count :: int32

definition StatisticalProcessor :: StatisticalProcessor where
  "StatisticalProcessor = \<lparr>m_total = 0, m_count = 0\<rparr>"

datatype fault = DivisionByZero | DivisionOverflow

definition int_div :: "int32 \<Rightarrow> int32 \<Rightarrow> fault + int32" where
  "int_div a b =
     (if b = 0 then Inl DivisionByZero
      else if sint a = - (2 ^ 31) \<and> sint b = - 1 then Inl DivisionOverflow
      else Inr (word_of_int (sint a sdiv sint b)))"

definition StatisticalProcessor_process ::
    "StatisticalProcessor \<Rightarrow> int32 \<Rightarrow> fault + (int32 \<times> StatisticalProcessor)" where
  "StatisticalProcessor_process sp input =
     (let total = m_total sp + input;
          count = m_count sp + 1
      in case int_div total count of
           Inl f \<Rightarrow> Inl f
         | Inr average \<Rightarrow> Inr (average, \<lparr>m_total = total, m_count = count\<rparr>))"

definition StatisticalProcessor_reset :: "StatisticalProcessor \<Rightarrow> StatisticalProcessor" where
  "StatisticalProcessor_reset sp = \<lparr>m_total = 0, m_count = 0\<rparr>"

text \<open>One processor object fed a sequence of inputs, one call after the other.\<close>

fun StatisticalProcessor_feed ::
    "StatisticalProcessor \<Rightarrow> int32 list \<Rightarrow> fault + (int32 list \<times> StatisticalProcessor)" where
  "StatisticalProcessor_feed sp [] = Inr ([], sp)"
| "StatisticalProcessor_feed sp (x # xs) =
     (case StatisticalProcessor_process sp x of
        Inl f \<Rightarrow> Inl f
      | Inr (y, sp') \<Rightarrow>
          (case StatisticalProcessor_feed sp' xs of
             Inl f \<Rightarrow> Inl f
           | Inr (ys, sp'') \<Rightarrow> Inr (y # ys, sp'')))"

section \<open>ProcessorFactory\<close>

text \<open>
  \<^verbatim>\<open>enum class ProcessorType\<close> has four enumerators over the underlying type
  \<^verbatim>\<open>int\<close>; a value of the type can hold any other integer as well (by a cast), which
  is what the \<^verbatim>\<open>default\<close> branches are for. The type is modelled by its underlying
  value.
\<close>

type_synonym ProcessorType = int

definition NUMERIC :: ProcessorType where "NUMERIC = 0"
definition STATISTICAL :: ProcessorType where "STATISTICAL = 1"
definition FILTERING :: ProcessorType where "FILTERING = 2"
definition AMPLIFICATION :: ProcessorType where "AMPLIFICATION = 3"

datatype exn = invalid_argument string

text \<open>
  What \<^verbatim>\<open>std::make_shared\<close> constructs: the class and its constructor argument.
  The parameters are a \<^verbatim>\<open>std::map<std::string, double>\<close>; a \<^verbatim>\<open>double\<close> is only
  looked up, defaulted and cast here, and is modelled as a real number.
\<close>

datatype 'a made =
    NumericProcessor 'a
  | NumericProcessor_string int
  | StatisticalProcessor_made
  | FilteringProcessor 'a
  | AmplificationProcessor real

text \<open>
  The primary template. \<open>cast\<close> stands for \<^verbatim>\<open>static_cast<T>\<close> from
  \<^verbatim>\<open>double\<close>, which depends on the item type.
\<close>

definition createProcessor ::
    "(real \<Rightarrow> 'a) \<Rightarrow> ProcessorType \<Rightarrow> (string \<rightharpoonup> real) \<Rightarrow> exn + 'a made" where
  "createProcessor cast type params =
     (if type = NUMERIC then
        (let multiplier = (case params ''multiplier'' of Some v \<Rightarrow> v | None \<Rightarrow> 2)
         in Inr (NumericProcessor (cast multiplier)))
      else if type = STATISTICAL then Inr StatisticalProcessor_made
      else if type = FILTERING then
        (let threshold = (case params ''threshold'' of Some v \<Rightarrow> v | None \<Rightarrow> 0)
         in Inr (FilteringProcessor (cast threshold)))
      else if type = AMPLIFICATION then
        (let gain = (case params ''gain'' of Some v \<Rightarrow> v | None \<Rightarrow> 3 / 2)
         in Inr (AmplificationProcessor gain))
      else Inl (invalid_argument ''Unknown processor type''))"

text \<open>
  The specialisation for \<^verbatim>\<open>std::string\<close>. \<open>cast_int\<close> stands for
  \<^verbatim>\<open>static_cast<int>\<close> from \<^verbatim>\<open>double\<close>.
\<close>

definition createProcessor_string ::
    "(real \<Rightarrow> int) \<Rightarrow> ProcessorType \<Rightarrow> (string \<rightharpoonup> real) \<Rightarrow> exn + string made" where
  "createProcessor_string cast_int type params =
     (if type = NUMERIC then
        (let repetitions = (case params ''repetitions'' of Some v \<Rightarrow> cast_int v | None \<Rightarrow> 2)
         in Inr (NumericProcessor_string repetitions))
      else if type = STATISTICAL \<or> type = FILTERING \<or> type = AMPLIFICATION then
        Inl (invalid_argument ''This processor type is not supported for strings'')
      else Inl (invalid_argument ''Unknown processor type''))"

text \<open>
  \<^verbatim>\<open>static_cast<int>\<close> of a \<^verbatim>\<open>double\<close>: the fractional part is dropped. When
  what is left does not fit the 32 bits of an \<^verbatim>\<open>int\<close> the standard leaves the
  result undefined; the conversion instruction of the usual hardware then gives the
  least \<^verbatim>\<open>int\<close>, and so does this function.
\<close>

definition static_cast_int :: "real \<Rightarrow> int" where
  "static_cast_int r =
     (let t = (if 0 \<le> r then \<lfloor>r\<rfloor> else \<lceil>r\<rceil>)
      in if - (2 ^ 31) \<le> t \<and> t < 2 ^ 31 then t else - (2 ^ 31))"

section \<open>ProcessingSystem: the pipeline\<close>

text \<open>
  The pipeline sees a processor through the \<^verbatim>\<open>Processor<T>\<close> interface only: a
  name and \<^verbatim>\<open>process\<close>, which may change the object's own members and may throw.
  \<open>obj\<close> holds those members; \<open>process\<close> returns the new members and how the call
  ended: with a result, with a \<^verbatim>\<open>std::exception\<close> thrown, or with something else
  thrown.
\<close>

datatype 'a outcome = Returned 'a | Threw_exception | Threw_other

record ('a, 's) Processor =
  getName :: string
  obj :: 's
  process :: "'s \<Rightarrow> 'a \<Rightarrow> 's \<times> 'a outcome"

text \<open>
  A worker thread is in its loop and holds no item, or holds the item it has taken from
  the input queue and not yet processed, or has left the loop.
\<close>

datatype 'a worker = Looping | Holding 'a | Finished

record ('a, 's) ProcessingSystem =
  m_numWorkers :: nat
  m_inputQueue :: "'a DataQueue"
  m_outputQueue :: "'a DataQueue"
  m_workers :: "'a worker list"
  m_isRunning :: bool
  m_processor :: "('a, 's) Processor option"
  m_totalProcessed :: nat
  m_totalErrors :: nat

definition ProcessingSystem :: "nat \<Rightarrow> nat \<Rightarrow> ('a, 's) ProcessingSystem" where
  "ProcessingSystem numWorkers queueSize =
     \<lparr>m_numWorkers = numWorkers,
      m_inputQueue = DataQueue queueSize,
      m_outputQueue = DataQueue queueSize,
      m_workers = [],
      m_isRunning = False,
      m_processor = None,
      m_totalProcessed = 0,
      m_totalErrors = 0\<rparr>"

text \<open>
  \<^verbatim>\<open>start()\<close>: \<^verbatim>\<open>isRunning_.exchange(true)\<close> returns the old flag; when it was set
  the call returns. With no processor the flag is put back to false and the call
  returns. Otherwise \<^verbatim>\<open>numWorkers_\<close> threads are appended to \<^verbatim>\<open>workers_\<close>.
\<close>

definition start :: "('a, 's) ProcessingSystem \<Rightarrow> ('a, 's) ProcessingSystem" where
  "start p =
     (if m_isRunning p then p
      else (let p1 = p\<lparr>m_isRunning := True\<rparr>
            in case m_processor p1 of
                 None \<Rightarrow> p1\<lparr>m_isRunning := False\<rparr>
               | Some pr \<Rightarrow> p1\<lparr>m_workers := m_workers p1 @ replicate (m_numWorkers p1) Looping\<rparr>))"

text \<open>
  One step of worker \<open>i\<close> of \<^verbatim>\<open>workerThread\<close>. A worker in its loop tests
  \<^verbatim>\<open>isRunning_.load() || !inputQueue_.empty()\<close>, leaves the loop when it is false,
  and otherwise calls \<^verbatim>\<open>inputQueue_.dequeue(500)\<close>, going round again on the empty
  result. A worker holding an item takes \<^verbatim>\<open>processorMutex_\<close>, counts an error when
  there is no processor or when \<^verbatim>\<open>process\<close> throws a \<^verbatim>\<open>std::exception\<close> (the
  only type the \<^verbatim>\<open>catch\<close> clause names), and otherwise calls
  \<^verbatim>\<open>outputQueue_.enqueue(result, 500)\<close>, counting the item as processed on true and
  an error on false. Anything else thrown leaves the thread function, so that
  \<^verbatim>\<open>std::terminate\<close> ends the program: the step has no next state, \<open>None\<close>, as
  when a call never returns. Within a step no other thread acts, so a timed wait that
  finds its predicate false times out; the threads interleave step by step. The
  counters are \<^verbatim>\<open>std::atomic<size_t>\<close>, natural numbers here.
\<close>

definition workerThread_step :: "nat \<Rightarrow> ('a, 's) ProcessingSystem \<Rightarrow> ('a, 's) ProcessingSystem option" where
  "workerThread_step i p =
     (if i < length (m_workers p) then
        (case m_workers p ! i of
           Finished \<Rightarrow> Some p
         | Looping \<Rightarrow>
             (if m_isRunning p \<or> \<not> empty_q (m_inputQueue p) then
                (case dequeue 500 (quiet 0) (m_inputQueue p) of
                   None \<Rightarrow> None
                 | Some (None, q) \<Rightarrow> Some (p\<lparr>m_inputQueue := q\<rparr>)
                 | Some (Some item, q) \<Rightarrow>
                     Some (p\<lparr>m_inputQueue := q, m_workers := (m_workers p)[i := Holding item]\<rparr>))
              else Some (p\<lparr>m_workers := (m_workers p)[i := Finished]\<rparr>))
         | Holding item \<Rightarrow>
             (let p1 = p\<lparr>m_workers := (m_workers p)[i := Looping]\<rparr>
              in case m_processor p1 of
                   None \<Rightarrow> Some (p1\<lparr>m_totalErrors := m_totalErrors p1 + 1\<rparr>)
                 | Some pr \<Rightarrow>
                     (case process pr (obj pr) item of
                        (s, Threw_other) \<Rightarrow> None
                      | (s, Threw_exception) \<Rightarrow>
                          Some (p1\<lparr>m_processor := Some (pr\<lparr>obj := s\<rparr>),
                                   m_totalErrors := m_totalErrors p1 + 1\<rparr>)
                      | (s, Returned result) \<Rightarrow>
                          (case enqueue result 500 (quiet 0) (m_outputQueue p1) of
                             None \<Rightarrow> None
                           | Some (True, q) \<Rightarrow>
                               Some (p1\<lparr>m_processor := Some (pr\<lparr>obj := s\<rparr>),
                                        m_outputQueue := q,
                                        m_totalProcessed := m_totalProcessed p1 + 1\<rparr>)
                           | Some (False, q) \<Rightarrow>
                               Some (p1\<lparr>m_processor := Some (pr\<lparr>obj := s\<rparr>),
                                        m_outputQueue := q,
                                        m_totalErrors := m_totalErrors p1 + 1\<rparr>)))))
      else Some p)"

text \<open>
  Joining the workers: the caller waits until every worker has left its loop, while the
  workers take their steps in the order a schedule gives (\<open>sched t\<close> is the worker that
  takes step \<open>t\<close>). A join that never returns, or during which the program is ended,
  is \<open>None\<close>.
\<close>

partial_function (option) join :: "(nat \<Rightarrow> nat) \<Rightarrow> nat \<Rightarrow> ('a, 's) ProcessingSystem
    \<Rightarrow> ('a, 's) ProcessingSystem option" where
  "join sched t p =
     (if list_all (\<lambda>w. w = Finished) (m_workers p) then Some p
      else Option.bind (workerThread_step (sched t) p) (join sched (Suc t)))"

text \<open>
  \<^verbatim>\<open>stop()\<close>: \<^verbatim>\<open>isRunning_.exchange(false)\<close> returns the old flag; when it was
  clear the call returns. Otherwise the input queue is shut down, the workers are
  joined and \<^verbatim>\<open>workers_\<close> is cleared.
\<close>

definition stop :: "(nat \<Rightarrow> nat) \<Rightarrow> ('a, 's) ProcessingSystem \<Rightarrow> ('a, 's) ProcessingSystem option" where
  "stop sched p =
     (if \<not> m_isRunning p then Some p
      else (case join sched 0 (p\<lparr>m_isRunning := False, m_inputQueue := shutdown (m_inputQueue p)\<rparr>) of
              None \<Rightarrow> None
            | Some p' \<Rightarrow> Some (p'\<lparr>m_workers := []\<rparr>)))"

text \<open>
  \<^verbatim>\<open>setProcessor(processor)\<close> with a non-null pointer (the log line of the source
  dereferences it).
\<close>

definition setProcessor :: "('a, 's) Processor \<Rightarrow> ('a, 's) ProcessingSystem \<Rightarrow> ('a, 's) ProcessingSystem" where
  "setProcessor processor p = p\<lparr>m_processor := Some processor\<rparr>"

text \<open>
  \<^verbatim>\<open>addData(data, timeoutMs)\<close>, \<^verbatim>\<open>getResult(timeoutMs)\<close> and
  \<^verbatim>\<open>getResults(count, timeoutMs)\<close>. The environment is that of the queue call made:
  what other threads do to that queue while the caller sleeps in it.
\<close>

definition addData :: "'a \<Rightarrow> int \<Rightarrow> 'a env \<Rightarrow> ('a, 's) ProcessingSystem
    \<Rightarrow> (bool \<times> ('a, 's) ProcessingSystem) option" where
  "addData data timeoutMs e p =
     (if \<not> m_isRunning p then Some (False, p)
      else (case enqueue data timeoutMs e (m_inputQueue p) of
              None \<Rightarrow> None
            | Some (r, q) \<Rightarrow> Some (r, p\<lparr>m_inputQueue := q\<rparr>)))"

definition getResult :: "int \<Rightarrow> 'a env \<Rightarrow> ('a, 's) ProcessingSystem
    \<Rightarrow> ('a option \<times> ('a, 's) ProcessingSystem) option" where
  "getResult timeoutMs e p =
     (case dequeue timeoutMs e (m_outputQueue p) of
        None \<Rightarrow> None
      | Some (r, q) \<Rightarrow> Some (r, p\<lparr>m_outputQueue := q\<rparr>))"

fun getResults_loop :: "nat \<Rightarrow> int \<Rightarrow> (nat \<Rightarrow> 'a env) \<Rightarrow> nat \<Rightarrow> 'a list \<Rightarrow> ('a, 's) ProcessingSystem
    \<Rightarrow> ('a list \<times> ('a, 's) ProcessingSystem) option" where
  "getResults_loop 0 timeoutMs es i results p = Some (results, p)"
| "getResults_loop (Suc n) timeoutMs es i results p =
     (case dequeue timeoutMs (es i) (m_outputQueue p) of
        None \<Rightarrow> None
      | Some (None, q) \<Rightarrow> getResults_loop n timeoutMs es (Suc i) results (p\<lparr>m_outputQueue := q\<rparr>)
      | Some (Some v, q) \<Rightarrow>
          getResults_loop n timeoutMs es (Suc i) (results @ [v]) (p\<lparr>m_outputQueue := q\<rparr>))"

definition getResults :: "nat \<Rightarrow> int \<Rightarrow> (nat \<Rightarrow> 'a env) \<Rightarrow> ('a, 's) ProcessingSystem
    \<Rightarrow> ('a list \<times> ('a, 's) ProcessingSystem) option" where
  "getResults count timeoutMs es p = getResults_loop count timeoutMs es 0 [] p"

subsection \<open>Runs of the pipeline\<close>

text \<open>Worker steps in a given order, while the caller does something else.\<close>

fun workerThread_steps :: "nat list \<Rightarrow> ('a, 's) ProcessingSystem \<Rightarrow> ('a, 's) ProcessingSystem option" where
  "workerThread_steps [] p = Some p"
| "workerThread_steps (i # is) p =
     (case workerThread_step i p of None \<Rightarrow> None | Some p' \<Rightarrow> workerThread_steps is p')"

text \<open>The schedule that lets the \<open>n\<close> workers step in turn.\<close>

definition round_robin :: "nat \<Rightarrow> nat \<Rightarrow> nat" where
  "round_robin n t = t mod n"

text \<open>
  What can happen to a pipeline: the calls of its public member functions and the steps
  of its workers, in any order. The state after a run is \<open>None\<close> when one of the
  calls never returns or the program is ended.
\<close>

datatype ('a, 's) event =
    Start
  | Stop "nat \<Rightarrow> nat"
  | SetProcessor "('a, 's) Processor"
  | AddData 'a int "'a env"
  | GetResult int "'a env"
  | GetResults nat int "nat \<Rightarrow> 'a env"
  | WorkerStep nat

fun do_event :: "('a, 's) event \<Rightarrow> ('a, 's) ProcessingSystem \<Rightarrow> ('a, 's) ProcessingSystem option" where
  "do_event Start p = Some (start p)"
| "do_event (Stop sched) p = stop sched p"
| "do_event (SetProcessor processor) p = Some (setProcessor processor p)"
| "do_event (AddData data timeoutMs e) p = map_option snd (addData data timeoutMs e p)"
| "do_event (GetResult timeoutMs e) p = map_option snd (getResult timeoutMs e p)"
| "do_event (GetResults count timeoutMs es) p = map_option snd (getResults count timeoutMs es p)"
| "do_event (WorkerStep i) p = workerThread_step i p"

fun run :: "('a, 's) event list \<Rightarrow> ('a, 's) ProcessingSystem \<Rightarrow> ('a, 's) ProcessingSystem option" where
  "run [] p = Some p"
| "run (ev # evs) p = (case do_event ev p of None \<Rightarrow> None | Some p' \<Rightarrow> run evs p')"

fun is_SetProcessor :: "('a, 's) event \<Rightarrow> bool" where
  "is_SetProcessor (SetProcessor processor) = True"
| "is_SetProcessor ev = False"

text \<open>
  \<^verbatim>\<open>NumericProcessor<int>\<close> behind the interface: its member is the multiplier, and
  \<^verbatim>\<open>process\<close> returns \<^verbatim>\<open>input * multiplier_\<close>.
\<close>

definition NumericProcessor_process :: "int32 \<Rightarrow> int32 \<Rightarrow> int32 \<times> int32 outcome" where
  "NumericProcessor_process multiplier input = (multiplier, Returned (input * multiplier))"

definition NumericProcessor_int :: "int32 \<Rightarrow> (int32, int32) Processor" where
  "NumericProcessor_int multiplier =
     \<lparr>getName = ''NumericProcessor'', obj = multiplier, process = NumericProcessor_process\<rparr>"

subsection \<open>Example pipelines\<close>

text \<open>
  A pipeline of integers with one worker and queues of capacity 3, on which
  \<^verbatim>\<open>NumericProcessor<int>(2)\<close> has been installed and \<^verbatim>\<open>start()\<close> called; and the
  state \<^verbatim>\<open>stop()\<close> leaves it in.
\<close>

abbreviation example_fresh :: "(int32, int32) ProcessingSystem" where
  "example_fresh \<equiv> ProcessingSystem 1 3"

abbreviation example_running :: "(int32, int32) ProcessingSystem" where
  "example_running \<equiv> start (setProcessor (NumericProcessor_int 2) (ProcessingSystem 1 3))"

abbreviation example_stopped :: "(int32, int32) ProcessingSystem" where
  "example_stopped \<equiv>
     \<lparr>m_numWorkers = 1,
      m_inputQueue = \<lparr>m_queue = [], m_maxSize = 3, m_shutdown = True\<rparr>,
      m_outputQueue = \<lparr>m_queue = [], m_maxSize = 3, m_shutdown = False\<rparr>,
      m_workers = [],
      m_isRunning = False,
      m_processor = Some (NumericProcessor_int 2),
      m_totalProcessed = 0,
      m_totalErrors = 0\<rparr>"

text \<open>
  The same pipeline at work: the item 5 waits in the input queue, the result 4 of an
  earlier item is in the output queue; and the state \<^verbatim>\<open>stop()\<close> leaves it in, the
  worker having processed the 5 before leaving its loop.
\<close>

abbreviation example_busy :: "(int32, int32) ProcessingSystem" where
  "example_busy \<equiv>
     \<lparr>m_numWorkers = 1,
      m_inputQueue = \<lparr>m_queue = [5], m_maxSize = 3, m_shutdown = False\<rparr>,
      m_outputQueue = \<lparr>m_queue = [4], m_maxSize = 3, m_shutdown = False\<rparr>,
      m_workers = [Looping],
      m_isRunning = True,
      m_processor = Some (NumericProcessor_int 2),
      m_totalProcessed = 1,
      m_totalErrors = 0\<rparr>"

abbreviation example_drained :: "(int32, int32) ProcessingSystem" where
  "example_drained \<equiv>
     \<lparr>m_numWorkers = 1,
      m_inputQueue = \<lparr>m_queue = [], m_maxSize = 3, m_shutdown = True\<rparr>,
      m_outputQueue = \<lparr>m_queue = [4, 10], m_maxSize = 3, m_shutdown = False\<rparr>,
      m_workers = [],
      m_isRunning = False,
      m_processor = Some (NumericProcessor_int 2),
      m_totalProcessed = 2,
      m_totalErrors = 0\<rparr>"

text \<open>
  A timed wait with \<open>n\<close> wake-ups before its timeout, during which another thread
  pushes \<open>x\<close> while the caller sleeps for the \<open>k\<close>-th time (counted from 0), and
  nothing else happens.
\<close>

definition arrives :: "nat \<Rightarrow> nat \<Rightarrow> 'a \<Rightarrow> 'a env" where
  "arrives n k x = \<lparr>wakeups = n, others = (\<lambda>i. if i = k then [OtherPush x] else [])\<rparr>"

text \<open>No other thread touches the queue during any of a series of calls.\<close>

definition quiet_each :: "nat \<Rightarrow> 'a env" where
  "quiet_each i = quiet 0"

subsection \<open>Predicates used in the proofs\<close>

text \<open>
  What a worker step, and so a join, leaves alone or changes in one direction only: the
  running flag, the worker count, the two shutdown flags and capacities and whether a
  processor is installed stay; the input queue loses items at the front at most, the
  output queue gains them at the back at most.
\<close>

definition frame :: "('a, 's) ProcessingSystem \<Rightarrow> ('a, 's) ProcessingSystem \<Rightarrow> bool" where
  "frame p p' = (m_isRunning p' = m_isRunning p \<and> m_numWorkers p' = m_numWorkers p
     \<and> m_shutdown (m_inputQueue p') = m_shutdown (m_inputQueue p)
     \<and> m_shutdown (m_outputQueue p') = m_shutdown (m_outputQueue p)
     \<and> m_maxSize (m_inputQueue p') = m_maxSize (m_inputQueue p)
     \<and> m_maxSize (m_outputQueue p') = m_maxSize (m_outputQueue p)
     \<and> (\<exists>k. m_queue (m_inputQueue p') = drop k (m_queue (m_inputQueue p)))
     \<and> (\<exists>ys. m_queue (m_outputQueue p') = m_queue (m_outputQueue p) @ ys)
     \<and> length (m_workers p') = length (m_workers p)
     \<and> (m_processor p' = None) = (m_processor p = None))"

text \<open>
  A bound on the steps the workers of a stopped pipeline still have to take: two for
  every item in the input queue, two for a worker that holds an item, one for a worker
  in its loop.
\<close>

fun weight :: "'a worker \<Rightarrow> nat" where
  "weight Finished = 0"
| "weight Looping = 1"
| "weight (Holding item) = 2"

definition work_left :: "('a, 's) ProcessingSystem \<Rightarrow> nat" where
  "work_left p = 2 * length (m_queue (m_inputQueue p)) + sum_list (map weight (m_workers p))"

text \<open>The installed processor, if any, throws nothing but a \<^verbatim>\<open>std::exception\<close>.\<close>

definition catchable :: "('a, 's) ProcessingSystem \<Rightarrow> bool" where
  "catchable p =
     (case m_processor p of
        None \<Rightarrow> True
      | Some pr \<Rightarrow> (\<forall>s item s'. process pr s item \<noteq> (s', Threw_other)))"

text \<open>A pipeline with no processor, not running and without workers.\<close>

definition idle :: "('a, 's) ProcessingSystem \<Rightarrow> bool" where
  "idle p = (m_processor p = None \<and> \<not> m_isRunning p \<and> m_workers p = [])"

section \<open>Properties of the queue\<close>

subsection \<open>What every critical section and every wait preserves\<close>

lemma pop_all_Nil: "pop_all xs = []"
  by (induction xs) simp_all

lemma do_act_maxSize: "m_maxSize (do_act a q) = m_maxSize q"
  by (cases a) (simp_all add: enqueue_tail_def dequeue_tail_def clear_def shutdown_def split: list.splits)

lemma do_act_shutdown: "m_shutdown q \<Longrightarrow> m_shutdown (do_act a q)"
  by (cases a) (simp_all add: enqueue_tail_def dequeue_tail_def clear_def shutdown_def split: list.splits)

lemma do_act_bounded: "length (m_queue q) \<le> m_maxSize q \<Longrightarrow> length (m_queue (do_act a q)) \<le> m_maxSize q"
  by (cases a) (auto simp: enqueue_tail_def dequeue_tail_def clear_def shutdown_def notFull_pred_def pop_all_Nil split: list.splits)

lemma run_acts_maxSize: "m_maxSize (run_acts as q) = m_maxSize q"
  by (induction as arbitrary: q) (simp_all add: do_act_maxSize)

lemma run_acts_shutdown: "m_shutdown q \<Longrightarrow> m_shutdown (run_acts as q)"
  by (induction as arbitrary: q) (simp_all add: do_act_shutdown)

lemma run_acts_bounded: "length (m_queue q) \<le> m_maxSize q \<Longrightarrow> length (m_queue (run_acts as q)) \<le> m_maxSize q"
proof (induction as arbitrary: q)
  case Nil
  then show ?case by simp
next
  case (Cons a as)
  have "length (m_queue (do_act a q)) \<le> m_maxSize (do_act a q)"
    using Cons.prems by (simp add: do_act_bounded do_act_maxSize)
  from Cons.IH [OF this] show ?case by (simp add: do_act_maxSize)
qed

lemma wait_for_maxSize: "m_maxSize (snd (wait_for pred n oth i q)) = m_maxSize q"
  by (induction n arbitrary: i q) (simp_all add: run_acts_maxSize)

lemma wait_for_shutdown: "m_shutdown q \<Longrightarrow> m_shutdown (snd (wait_for pred n oth i q))"
  by (induction n arbitrary: i q) (simp_all add: run_acts_shutdown)

lemma wait_for_bounded:
  "length (m_queue q) \<le> m_maxSize q \<Longrightarrow> length (m_queue (snd (wait_for pred n oth i q))) \<le> m_maxSize q"
proof (induction n arbitrary: i q)
  case 0
  then show ?case by simp
next
  case (Suc n)
  have "length (m_queue (run_acts (oth i) q)) \<le> m_maxSize (run_acts (oth i) q)"
    using Suc.prems by (simp add: run_acts_bounded run_acts_maxSize)
  from Suc.IH [OF this] show ?case using Suc.prems by (simp add: run_acts_maxSize)
qed

lemma wait_for_pred: "fst (wait_for pred n oth i q) \<Longrightarrow> pred (snd (wait_for pred n oth i q))"
  by (induction n arbitrary: i q) (auto split: if_splits)

lemma wait_Some:
  assumes "wait pred oth i q = Some q'"
  shows "pred q' \<and> m_maxSize q' = m_maxSize q \<and> (m_shutdown q \<longrightarrow> m_shutdown q')
     \<and> (length (m_queue q) \<le> m_maxSize q \<longrightarrow> length (m_queue q') \<le> m_maxSize q)"
proof (rule wait.raw_induct [where P = "\<lambda>pred oth i q q'. pred q' \<and> m_maxSize q' = m_maxSize q
     \<and> (m_shutdown q \<longrightarrow> m_shutdown q')
     \<and> (length (m_queue q) \<le> m_maxSize q \<longrightarrow> length (m_queue q') \<le> m_maxSize q)", OF _ assms])
  fix w :: "('a DataQueue \<Rightarrow> bool) \<Rightarrow> (nat \<Rightarrow> 'a act list) \<Rightarrow> nat \<Rightarrow> 'a DataQueue \<Rightarrow> 'a DataQueue option"
  fix pred oth i q q'
  assume IH: "\<And>pred oth i q q'. w pred oth i q = Some q' \<Longrightarrow> pred q' \<and> m_maxSize q' = m_maxSize q
     \<and> (m_shutdown q \<longrightarrow> m_shutdown q')
     \<and> (length (m_queue q) \<le> m_maxSize q \<longrightarrow> length (m_queue q') \<le> m_maxSize q)"
  assume eq: "(if pred q then Some q else w pred oth (Suc i) (run_acts (oth i) q)) = Some q'"
  show "pred q' \<and> m_maxSize q' = m_maxSize q \<and> (m_shutdown q \<longrightarrow> m_shutdown q')
     \<and> (length (m_queue q) \<le> m_maxSize q \<longrightarrow> length (m_queue q') \<le> m_maxSize q)"
  proof (cases "pred q")
    case True
    with eq show ?thesis by simp
  next
    case False
    with eq have "w pred oth (Suc i) (run_acts (oth i) q) = Some q'" by simp
    from IH [OF this] show ?thesis
      by (simp add: run_acts_maxSize run_acts_shutdown run_acts_bounded)
  qed
qed

subsection \<open>Calls that return at once, time out, or never return\<close>

lemma wait_for_now: "pred q \<Longrightarrow> wait_for pred n oth i q = (True, q)"
  by (cases n) simp_all

lemma wait_now: "pred q \<Longrightarrow> wait pred oth i q = Some q"
  by (subst wait.simps) simp

lemma enqueue_space:
  "notFull_pred q \<Longrightarrow> enqueue item timeoutMs e q = Some (True, q\<lparr>m_queue := m_queue q @ [item]\<rparr>)"
  by (simp add: enqueue_def wait_for_now wait_now enqueue_tail_def) (simp add: notFull_pred_def)

lemma dequeue_ready:
  "notEmpty_pred q \<Longrightarrow> dequeue timeoutMs e q = Some (dequeue_tail q)"
  by (simp add: dequeue_def wait_for_now wait_now)

lemma rounds_quiet: "rounds n (\<lambda>i. []) i q = q"
  by (induction n arbitrary: i) simp_all

lemma wait_for_quiet: "\<not> pred q \<Longrightarrow> wait_for pred n (\<lambda>i. []) i q = (False, q)"
  by (induction n arbitrary: i) simp_all

lemma enqueue_full_timeout:
  "\<not> notFull_pred q \<Longrightarrow> 0 < timeoutMs \<Longrightarrow> enqueue item timeoutMs (quiet n) q = Some (False, q)"
  by (simp add: enqueue_def quiet_def wait_for_quiet)

lemma dequeue_empty_timeout:
  "\<not> notEmpty_pred q \<Longrightarrow> 0 < timeoutMs \<Longrightarrow> dequeue timeoutMs (quiet n) q = Some (None, q)"
  by (simp add: dequeue_def quiet_def wait_for_quiet)

lemma dequeue_quiet:
  "0 < timeoutMs \<Longrightarrow> dequeue timeoutMs (quiet n) q = Some (if notEmpty_pred q then dequeue_tail q else (None, q))"
  by (simp add: dequeue_ready dequeue_empty_timeout)

lemma enqueue_quiet:
  "0 < timeoutMs \<Longrightarrow> enqueue item timeoutMs (quiet n) q
     = Some (if notFull_pred q then (True, q\<lparr>m_queue := m_queue q @ [item]\<rparr>) else (False, q))"
  by (simp add: enqueue_space enqueue_full_timeout)

lemma wait_quiet_Some:
  assumes "wait pred oth i q = Some q'"
  shows "oth = (\<lambda>i. []) \<longrightarrow> pred q"
proof (rule wait.raw_induct [where P = "\<lambda>pred oth i q q'. oth = (\<lambda>i. []) \<longrightarrow> pred q", OF _ assms])
  fix w :: "('a DataQueue \<Rightarrow> bool) \<Rightarrow> (nat \<Rightarrow> 'a act list) \<Rightarrow> nat \<Rightarrow> 'a DataQueue \<Rightarrow> 'a DataQueue option"
  fix pred oth i q q'
  assume IH: "\<And>pred oth i q q'. w pred oth i q = Some q' \<Longrightarrow> oth = (\<lambda>i. []) \<longrightarrow> pred q"
  assume eq: "(if pred q then Some q else w pred oth (Suc i) (run_acts (oth i) q)) = Some q'"
  show "oth = (\<lambda>i. []) \<longrightarrow> pred q"
  proof (cases "pred q")
    case True
    then show ?thesis by simp
  next
    case False
    with eq have "w pred oth (Suc i) (run_acts (oth i) q) = Some q'" by simp
    from IH [OF this] show ?thesis by auto
  qed
qed

lemma wait_quiet_blocks: "\<not> pred q \<Longrightarrow> wait pred (\<lambda>i. []) i q = None"
  using wait_quiet_Some [of pred "\<lambda>i. []" i q] by (cases "wait pred (\<lambda>i. []) i q") auto

lemma enqueue_full_untimed_blocks:
  "\<not> notFull_pred q \<Longrightarrow> timeoutMs \<le> 0 \<Longrightarrow> enqueue item timeoutMs (quiet n) q = None"
  by (simp add: enqueue_def quiet_def wait_quiet_blocks)

lemma dequeue_empty_untimed_blocks:
  "\<not> notEmpty_pred q \<Longrightarrow> timeoutMs \<le> 0 \<Longrightarrow> dequeue timeoutMs (quiet n) q = None"
  by (simp add: dequeue_def quiet_def wait_quiet_blocks)

subsection \<open>After shutdown\<close>

lemma wait_for_notFull_shutdown:
  "m_shutdown q \<Longrightarrow> wait_for notFull_pred n oth i q = (False, rounds n oth i q)"
  by (induction n arbitrary: i q) (simp_all add: notFull_pred_def run_acts_shutdown)

lemma wait_notFull_shutdown:
  assumes "m_shutdown q"
  shows "wait notFull_pred oth i q = None"
proof (cases "wait notFull_pred oth i q")
  case None
  then show ?thesis .
next
  case (Some q')
  from wait_Some [OF this] assms show ?thesis by (auto simp: notFull_pred_def)
qed

lemma enqueue_timed_after_shutdown:
  "m_shutdown q \<Longrightarrow> 0 < timeoutMs \<Longrightarrow>
   enqueue item timeoutMs e q = Some (False, rounds (wakeups e) (others e) 0 q)"
  by (simp add: enqueue_def wait_for_notFull_shutdown)

lemma enqueue_untimed_after_shutdown:
  "m_shutdown q \<Longrightarrow> timeoutMs \<le> 0 \<Longrightarrow> enqueue item timeoutMs e q = None"
  by (simp add: enqueue_def wait_notFull_shutdown)

lemma run_acts_shutdown_drop:
  "m_shutdown q \<Longrightarrow> \<exists>k. m_queue (run_acts as q) = drop k (m_queue q)"
proof (induction as arbitrary: q)
  case Nil
  then show ?case by (auto intro: exI [of _ 0])
next
  case (Cons a as)
  have s: "m_shutdown (do_act a q)" using Cons.prems by (rule do_act_shutdown)
  have "\<exists>j. m_queue (do_act a q) = drop j (m_queue q)"
  proof (cases a)
    case (OtherPush x)
    then show ?thesis using Cons.prems by (auto simp: notFull_pred_def intro: exI [of _ 0])
  next
    case OtherPop
    then show ?thesis by (auto simp: dequeue_tail_def split: list.splits intro: exI [of _ 0] exI [of _ "Suc 0"])
  next
    case OtherClear
    then show ?thesis by (auto simp: clear_def pop_all_Nil intro: exI [of _ "length (m_queue q)"])
  next
    case OtherShutdown
    then show ?thesis by (auto simp: shutdown_def intro: exI [of _ 0])
  qed
  then obtain j where j: "m_queue (do_act a q) = drop j (m_queue q)" ..
  from Cons.IH [OF s] obtain k where "m_queue (run_acts as (do_act a q)) = drop k (m_queue (do_act a q))" ..
  with j have "m_queue (run_acts (a # as) q) = drop (j + k) (m_queue q)" by (simp add: add.commute)
  then show ?case ..
qed

lemma rounds_shutdown: "m_shutdown q \<Longrightarrow> m_shutdown (rounds n oth i q)"
  by (induction n arbitrary: i q) (simp_all add: run_acts_shutdown)

lemma rounds_shutdown_drop:
  "m_shutdown q \<Longrightarrow> \<exists>k. m_queue (rounds n oth i q) = drop k (m_queue q)"
proof (induction n arbitrary: i q)
  case 0
  then show ?case by (auto intro: exI [of _ 0])
next
  case (Suc n)
  from run_acts_shutdown_drop [OF Suc.prems] obtain j where j: "m_queue (run_acts (oth i) q) = drop j (m_queue q)" ..
  have "m_shutdown (run_acts (oth i) q)" using Suc.prems by (rule run_acts_shutdown)
  from Suc.IH [OF this] obtain k where "m_queue (rounds n oth (Suc i) (run_acts (oth i) q)) = drop k (m_queue (run_acts (oth i) q))" ..
  with j have "m_queue (rounds (Suc n) oth i q) = drop (j + k) (m_queue q)" by (simp add: add.commute)
  then show ?case ..
qed

text \<open>
  Claim C2. After \<^verbatim>\<open>shutdown()\<close> the not-full predicate
  \<^verbatim>\<open>queue_.size() < maxSize_ && !shutdown_\<close> can never hold again. The timed
  \<^verbatim>\<open>enqueue\<close> returns false at its timeout (\<open>enqueue_timed_after_shutdown\<close>),
  but the untimed one stays in \<^verbatim>\<open>notFull_.wait\<close> for good, whatever the other
  threads do (\<open>enqueue_untimed_after_shutdown\<close>): the test of \<^verbatim>\<open>shutdown_\<close> that
  follows the wait is never reached with the flag set. Here at two inputs: a queue of
  capacity 1 shut down before the call with the default timeout \<open>-1\<close>, and a full
  queue on which another thread calls \<^verbatim>\<open>shutdown()\<close> while the caller sleeps. Neither
  call returns.
\<close>

theorem enqueue_untimed_after_shutdown_never_returns: "enqueue (7::nat) (-1) (quiet 0) (shutdown (DataQueue 1)) = None
  \<and> enqueue (7::nat) (-1) shutdown_while_waiting \<lparr>m_queue = [5], m_maxSize = 1, m_shutdown = False\<rparr> = None"
proof
  show "enqueue (7::nat) (-1) (quiet 0) (shutdown (DataQueue 1)) = None"
    by (rule enqueue_untimed_after_shutdown) (simp_all add: shutdown_def)
  have "wait notFull_pred (others shutdown_while_waiting) 0 \<lparr>m_queue = [5::nat], m_maxSize = 1, m_shutdown = False\<rparr>
      = wait notFull_pred (others shutdown_while_waiting) (Suc 0) \<lparr>m_queue = [5::nat], m_maxSize = 1, m_shutdown = True\<rparr>"
    by (subst wait.simps) (simp add: notFull_pred_def shutdown_while_waiting_def shutdown_def)
  also have "\<dots> = None"
    by (rule wait_notFull_shutdown) simp
  finally show "enqueue (7::nat) (-1) shutdown_while_waiting \<lparr>m_queue = [5], m_maxSize = 1, m_shutdown = False\<rparr> = None"
    by (simp add: enqueue_def)
qed

lemma dequeues_shutdown:
  "m_shutdown q \<Longrightarrow> dequeues cs q =
     Some (map Some (take (length cs) (m_queue q)) @ replicate (length cs - length (m_queue q)) None,
           q\<lparr>m_queue := drop (length cs) (m_queue q)\<rparr>)"
proof (induction cs arbitrary: q)
  case Nil
  then show ?case by simp
next
  case (Cons c cs)
  obtain t e where c: "c = (t, e)" by (cases c)
  have d: "dequeue t e q = Some (dequeue_tail q)"
    using Cons.prems by (simp add: dequeue_ready notEmpty_pred_def)
  show ?case
  proof (cases "m_queue q")
    case Nil
    let ?q = "q"
    have "dequeues cs q = Some (replicate (length cs) None, q)"
      using Cons.IH [OF Cons.prems] Nil by simp
    then show ?thesis using Nil c d by (simp add: dequeue_tail_def)
  next
    case (Cons x xs)
    have "m_shutdown (q\<lparr>m_queue := xs\<rparr>)" using Cons.prems by simp
    from Cons.IH [OF this] show ?thesis using Cons c d
      by (simp add: dequeue_tail_def)
  qed
qed

text \<open>
  Claim C3. On a queue that held \<open>i1, ..., ik\<close> when \<^verbatim>\<open>shutdown()\<close> was called,
  any series of \<^verbatim>\<open>dequeue\<close> calls (with any timeouts, timed or not) returns, and
  yields \<open>i1, ..., ik\<close> in that order followed by the empty result for every further
  call; the shutdown blocks no removal.
\<close>

theorem dequeue_after_shutdown_drains:
  "dequeues cs (shutdown q) =
     Some (map Some (take (length cs) (m_queue q)) @ replicate (length cs - length (m_queue q)) None,
           (shutdown q)\<lparr>m_queue := drop (length cs) (m_queue q)\<rparr>)"
  using dequeues_shutdown [of "shutdown q" cs] by (simp add: shutdown_def)

theorem dequeue_after_shutdown_drains_witness:
  "dequeues [(-1, quiet 0), (5, quiet 0), (0, quiet 0)] (shutdown \<lparr>m_queue = [1, 2 :: nat], m_maxSize = 3, m_shutdown = False\<rparr>)
     = Some ([Some 1, Some 2, None], \<lparr>m_queue = [], m_maxSize = 3, m_shutdown = True\<rparr>)"
  using dequeue_after_shutdown_drains [of "[(-1, quiet 0), (5, quiet 0), (0, quiet 0)]" "\<lparr>m_queue = [1, 2 :: nat], m_maxSize = 3, m_shutdown = False\<rparr>"]
  by (simp add: shutdown_def)

subsection \<open>Capacity and the shutdown flag\<close>

lemma do_call_Some:
  assumes "do_call c q = Some q'"
  shows "m_maxSize q' = m_maxSize q \<and> (m_shutdown q \<longrightarrow> m_shutdown q')
     \<and> (length (m_queue q) \<le> m_maxSize q \<longrightarrow> length (m_queue q') \<le> m_maxSize q)"
proof (cases c)
  case (Enqueue item t e)
  show ?thesis
  proof (cases "0 < t")
    case True
    obtain b w where w: "wait_for notFull_pred (wakeups e) (others e) 0 q = (b, w)"
      by (cases "wait_for notFull_pred (wakeups e) (others e) 0 q")
    have pw: "b \<Longrightarrow> notFull_pred w"
      using wait_for_pred [of notFull_pred "wakeups e" "others e" 0 q] w by simp
    have mw: "m_maxSize w = m_maxSize q"
      using wait_for_maxSize [of notFull_pred "wakeups e" "others e" 0 q] w by simp
    have sw: "m_shutdown q \<Longrightarrow> m_shutdown w"
      using wait_for_shutdown [of q notFull_pred "wakeups e" "others e" 0] w by simp
    have bw: "length (m_queue q) \<le> m_maxSize q \<Longrightarrow> length (m_queue w) \<le> m_maxSize q"
      using wait_for_bounded [of q notFull_pred "wakeups e" "others e" 0] w by simp
    show ?thesis
    proof (cases b)
      case True
      with pw have "notFull_pred w" by simp
      then show ?thesis using assms Enqueue \<open>0 < t\<close> w True mw sw
        by (auto simp: enqueue_def enqueue_tail_def notFull_pred_def)
    next
      case False
      then show ?thesis using assms Enqueue \<open>0 < t\<close> w mw sw bw
        by (auto simp: enqueue_def)
    qed
  next
    case False
    with assms Enqueue obtain w where w: "wait notFull_pred (others e) 0 q = Some w"
      and q': "q' = snd (enqueue_tail item w)"
      by (auto simp: enqueue_def split: option.splits)
    from wait_Some [OF w] q' show ?thesis
      by (auto simp: enqueue_tail_def notFull_pred_def)
  qed
next
  case (Dequeue t e)
  have tail: "\<And>w. m_maxSize (snd (dequeue_tail w)) = m_maxSize w
      \<and> m_shutdown (snd (dequeue_tail w)) = m_shutdown w
      \<and> length (m_queue (snd (dequeue_tail w))) \<le> length (m_queue w)"
    by (simp add: dequeue_tail_def split: list.splits)
  show ?thesis
  proof (cases "0 < t")
    case True
    obtain b w where w: "wait_for notEmpty_pred (wakeups e) (others e) 0 q = (b, w)"
      by (cases "wait_for notEmpty_pred (wakeups e) (others e) 0 q")
    have mw: "m_maxSize w = m_maxSize q"
      using wait_for_maxSize [of notEmpty_pred "wakeups e" "others e" 0 q] w by simp
    have sw: "m_shutdown q \<Longrightarrow> m_shutdown w"
      using wait_for_shutdown [of q notEmpty_pred "wakeups e" "others e" 0] w by simp
    have bw: "length (m_queue q) \<le> m_maxSize q \<Longrightarrow> length (m_queue w) \<le> m_maxSize q"
      using wait_for_bounded [of q notEmpty_pred "wakeups e" "others e" 0] w by simp
    have "q' = w \<or> q' = snd (dequeue_tail w)"
      using assms Dequeue True w by (cases b) (auto simp: dequeue_def)
    then show ?thesis using mw sw bw tail [of w] by auto
  next
    case False
    with assms Dequeue obtain w where w: "wait notEmpty_pred (others e) 0 q = Some w"
      and q': "q' = snd (dequeue_tail w)"
      by (auto simp: dequeue_def split: option.splits)
    from wait_Some [OF w] q' tail [of w] show ?thesis by auto
  qed
qed (use assms in \<open>auto simp: clear_def shutdown_def pop_all_Nil\<close>)

lemma calls_Some:
  assumes "calls cs q = Some q'"
  shows "m_maxSize q' = m_maxSize q \<and> (m_shutdown q \<longrightarrow> m_shutdown q')
     \<and> (length (m_queue q) \<le> m_maxSize q \<longrightarrow> length (m_queue q') \<le> m_maxSize q)"
  using assms
proof (induction cs arbitrary: q)
  case Nil
  then show ?case by simp
next
  case (Cons c cs)
  then obtain w where w: "do_call c q = Some w" and r: "calls cs w = Some q'"
    by (auto split: option.splits)
  from do_call_Some [OF w] Cons.IH [OF r] show ?case by auto
qed

text \<open>
  Claim C4. After any sequence of calls (enqueue, dequeue, peek, clear, shutdown and the
  read-only ones) on a queue constructed with capacity \<open>n\<close>, the length does not exceed
  \<open>n\<close>, also after anything other threads then do; and once the shutdown flag is set,
  neither other threads nor any further sequence of calls clears it.
\<close>

theorem queue_invariants:
  assumes "calls cs (DataQueue n) = Some q"
  shows "length (m_queue q) \<le> n \<and> m_maxSize q = n
     \<and> (\<forall>as. length (m_queue (run_acts as q)) \<le> n)
     \<and> (m_shutdown q \<longrightarrow> (\<forall>as. m_shutdown (run_acts as q))
            \<and> (\<forall>cs' q'. calls cs' q = Some q' \<longrightarrow> m_shutdown q'))"
proof -
  from calls_Some [OF assms] have q: "length (m_queue q) \<le> n" "m_maxSize q = n"
    by (simp_all add: DataQueue_def)
  have "\<And>as. length (m_queue (run_acts as q)) \<le> n"
    using run_acts_bounded [of q] q by simp
  moreover have "\<And>cs' q'. m_shutdown q \<Longrightarrow> calls cs' q = Some q' \<Longrightarrow> m_shutdown q'"
    using calls_Some by blast
  ultimately show ?thesis using q run_acts_shutdown [of q] by blast
qed

theorem queue_invariants_witness:
  "calls [Enqueue (10::nat) (-1) (quiet 0), Enqueue 20 5 (quiet 0), Enqueue 30 5 (quiet 0), Shutdown,
          Dequeue 0 (quiet 0), Peek, Clear] (DataQueue 2)
     = Some \<lparr>m_queue = [], m_maxSize = 2, m_shutdown = True\<rparr>
   \<and> length (m_queue \<lparr>m_queue = ([] :: nat list), m_maxSize = 2, m_shutdown = True\<rparr>) \<le> 2
   \<and> length (m_queue (run_acts [OtherPush 9, OtherClear] \<lparr>m_queue = ([] :: nat list), m_maxSize = 2, m_shutdown = True\<rparr>)) \<le> 2
   \<and> m_shutdown (run_acts [OtherPush 9, OtherClear] \<lparr>m_queue = ([] :: nat list), m_maxSize = 2, m_shutdown = True\<rparr>)
   \<and> calls [Enqueue 40 5 (quiet 0), Clear] \<lparr>m_queue = ([] :: nat list), m_maxSize = 2, m_shutdown = True\<rparr>
       = Some \<lparr>m_queue = [], m_maxSize = 2, m_shutdown = True\<rparr>"
proof -
  let ?Q = "\<lparr>m_queue = ([] :: nat list), m_maxSize = 2, m_shutdown = True\<rparr>"
  have e1: "enqueue (10::nat) (-1) (quiet 0) (DataQueue 2) = Some (True, \<lparr>m_queue = [10], m_maxSize = 2, m_shutdown = False\<rparr>)"
    by (simp add: enqueue_space notFull_pred_def DataQueue_def)
  have e2: "enqueue (20::nat) 5 (quiet 0) \<lparr>m_queue = [10], m_maxSize = 2, m_shutdown = False\<rparr>
      = Some (True, \<lparr>m_queue = [10, 20], m_maxSize = 2, m_shutdown = False\<rparr>)"
    by (simp add: enqueue_space notFull_pred_def)
  have e3: "enqueue (30::nat) 5 (quiet 0) \<lparr>m_queue = [10, 20], m_maxSize = 2, m_shutdown = False\<rparr>
      = Some (False, \<lparr>m_queue = [10, 20], m_maxSize = 2, m_shutdown = False\<rparr>)"
    by (simp add: enqueue_full_timeout notFull_pred_def)
  have d: "dequeue 0 (quiet 0) \<lparr>m_queue = [10, 20 :: nat], m_maxSize = 2, m_shutdown = True\<rparr>
      = Some (Some 10, \<lparr>m_queue = [20], m_maxSize = 2, m_shutdown = True\<rparr>)"
    by (simp add: dequeue_ready notEmpty_pred_def dequeue_tail_def)
  have h: "calls [Enqueue (10::nat) (-1) (quiet 0), Enqueue 20 5 (quiet 0), Enqueue 30 5 (quiet 0), Shutdown,
          Dequeue 0 (quiet 0), Peek, Clear] (DataQueue 2) = Some ?Q"
    by (simp add: e1 e2 e3 d shutdown_def clear_def)
  have e4: "enqueue (40::nat) 5 (quiet 0) ?Q = Some (False, ?Q)"
    by (simp add: enqueue_full_timeout notFull_pred_def)
  have h': "calls [Enqueue 40 5 (quiet 0), Clear] ?Q = Some ?Q"
    by (simp add: e4 clear_def)
  from queue_invariants [OF h] have a: "length (m_queue ?Q) \<le> 2"
    and b: "\<forall>as. length (m_queue (run_acts as ?Q)) \<le> 2"
    and c: "\<forall>as. m_shutdown (run_acts as ?Q)"
    by simp_all
  from h h' a b c show ?thesis by blast
qed

subsection \<open>A queue of capacity 3\<close>

text \<open>
  Claim C5. On a fresh queue of capacity 3, enqueueing A, B and C returns true each time
  (with any timeout); enqueueing D on the full queue with a positive timeout, nobody
  else touching the queue, times out and returns false, leaving the queue as it was; a
  dequeue returns A; and enqueueing D again returns true. (With a timeout of zero the
  source takes the untimed wait, see \<open>enqueue_full_untimed_blocks\<close>.)
\<close>

theorem capacity_three_scenario:
  assumes "0 < t"
  shows "enqueue A t1 e1 (DataQueue 3) = Some (True, (DataQueue 3)\<lparr>m_queue := [A]\<rparr>)
    \<and> enqueue B t2 e2 ((DataQueue 3)\<lparr>m_queue := [A]\<rparr>) = Some (True, (DataQueue 3)\<lparr>m_queue := [A, B]\<rparr>)
    \<and> enqueue C t3 e3 ((DataQueue 3)\<lparr>m_queue := [A, B]\<rparr>) = Some (True, (DataQueue 3)\<lparr>m_queue := [A, B, C]\<rparr>)
    \<and> enqueue D t (quiet n) ((DataQueue 3)\<lparr>m_queue := [A, B, C]\<rparr>) = Some (False, (DataQueue 3)\<lparr>m_queue := [A, B, C]\<rparr>)
    \<and> dequeue t4 e4 ((DataQueue 3)\<lparr>m_queue := [A, B, C]\<rparr>) = Some (Some A, (DataQueue 3)\<lparr>m_queue := [B, C]\<rparr>)
    \<and> enqueue D t5 e5 ((DataQueue 3)\<lparr>m_queue := [B, C]\<rparr>) = Some (True, (DataQueue 3)\<lparr>m_queue := [B, C, D]\<rparr>)"
proof -
  have 1: "enqueue A t1 e1 (DataQueue 3) = Some (True, (DataQueue 3)\<lparr>m_queue := [A]\<rparr>)"
    by (simp add: enqueue_space notFull_pred_def DataQueue_def)
  have 2: "enqueue B t2 e2 ((DataQueue 3)\<lparr>m_queue := [A]\<rparr>) = Some (True, (DataQueue 3)\<lparr>m_queue := [A, B]\<rparr>)"
    by (simp add: enqueue_space notFull_pred_def DataQueue_def)
  have 3: "enqueue C t3 e3 ((DataQueue 3)\<lparr>m_queue := [A, B]\<rparr>) = Some (True, (DataQueue 3)\<lparr>m_queue := [A, B, C]\<rparr>)"
    by (simp add: enqueue_space notFull_pred_def DataQueue_def)
  have 4: "enqueue D t (quiet n) ((DataQueue 3)\<lparr>m_queue := [A, B, C]\<rparr>) = Some (False, (DataQueue 3)\<lparr>m_queue := [A, B, C]\<rparr>)"
    using assms by (simp add: enqueue_full_timeout notFull_pred_def DataQueue_def)
  have 5: "dequeue t4 e4 ((DataQueue 3)\<lparr>m_queue := [A, B, C]\<rparr>) = Some (Some A, (DataQueue 3)\<lparr>m_queue := [B, C]\<rparr>)"
    by (simp add: dequeue_ready notEmpty_pred_def dequeue_tail_def DataQueue_def)
  have 6: "enqueue D t5 e5 ((DataQueue 3)\<lparr>m_queue := [B, C]\<rparr>) = Some (True, (DataQueue 3)\<lparr>m_queue := [B, C, D]\<rparr>)"
    by (simp add: enqueue_space notFull_pred_def DataQueue_def)
  from 1 2 3 4 5 6 show ?thesis by simp
qed

theorem capacity_three_scenario_witness:
  "(0::int) < 1
    \<and> enqueue (10::nat) (-1) (quiet 0) (DataQueue 3) = Some (True, \<lparr>m_queue = [10], m_maxSize = 3, m_shutdown = False\<rparr>)
    \<and> enqueue (20::nat) (-1) (quiet 0) \<lparr>m_queue = [10], m_maxSize = 3, m_shutdown = False\<rparr> = Some (True, \<lparr>m_queue = [10, 20], m_maxSize = 3, m_shutdown = False\<rparr>)
    \<and> enqueue (30::nat) (-1) (quiet 0) \<lparr>m_queue = [10, 20], m_maxSize = 3, m_shutdown = False\<rparr> = Some (True, \<lparr>m_queue = [10, 20, 30], m_maxSize = 3, m_shutdown = False\<rparr>)
    \<and> enqueue (40::nat) 1 (quiet 0) \<lparr>m_queue = [10, 20, 30], m_maxSize = 3, m_shutdown = False\<rparr> = Some (False, \<lparr>m_queue = [10, 20, 30], m_maxSize = 3, m_shutdown = False\<rparr>)
    \<and> dequeue (-1) (quiet 0) \<lparr>m_queue = [10, 20, 30 :: nat], m_maxSize = 3, m_shutdown = False\<rparr> = Some (Some 10, \<lparr>m_queue = [20, 30], m_maxSize = 3, m_shutdown = False\<rparr>)
    \<and> enqueue (40::nat) 1 (quiet 0) \<lparr>m_queue = [20, 30], m_maxSize = 3, m_shutdown = False\<rparr> = Some (True, \<lparr>m_queue = [20, 30, 40], m_maxSize = 3, m_shutdown = False\<rparr>)"
proof -
  have h: "(0::int) < 1" by simp
  from capacity_three_scenario [OF h, where A = "10::nat" and B = 20 and C = 30 and D = 40 and n = 0
      and ?t1.0 = "-1" and ?t2.0 = "-1" and ?t3.0 = "-1" and ?t4.0 = "-1" and ?t5.0 = 1
      and ?e1.0 = "quiet 0" and ?e2.0 = "quiet 0" and ?e3.0 = "quiet 0" and ?e4.0 = "quiet 0" and ?e5.0 = "quiet 0"]
  show ?thesis by (simp add: DataQueue_def)
qed

section \<open>Properties of the processors and of the factory\<close>

lemma int_div_ex: "int_div 10 1 = Inr 10" "int_div 30 2 = Inr 15" "int_div 60 3 = Inr 20"
  by (simp_all add: int_div_def signed_divide_int_def)

text \<open>
  Claim C6. A fresh \<^verbatim>\<open>StatisticalProcessor<int>\<close> given 10, then 20, then 30 returns
  10, then 15, then 20.
\<close>

theorem running_average_scenario:
  "StatisticalProcessor_process StatisticalProcessor 10 = Inr (10, \<lparr>m_total = 10, m_count = 1\<rparr>)
   \<and> StatisticalProcessor_process \<lparr>m_total = 10, m_count = 1\<rparr> 20 = Inr (15, \<lparr>m_total = 30, m_count = 2\<rparr>)
   \<and> StatisticalProcessor_process \<lparr>m_total = 30, m_count = 2\<rparr> 30 = Inr (20, \<lparr>m_total = 60, m_count = 3\<rparr>)
   \<and> StatisticalProcessor_feed StatisticalProcessor [10, 20, 30] = Inr ([10, 15, 20], \<lparr>m_total = 60, m_count = 3\<rparr>)"
  by (simp add: StatisticalProcessor_def StatisticalProcessor_process_def int_div_ex)

text \<open>
  Claim C9. The primary template's \<^verbatim>\<open>createProcessor\<close> succeeds for each of the four
  enumerators and throws \<^verbatim>\<open>std::invalid_argument\<close> exactly for a value that is none
  of them. The \<^verbatim>\<open>std::string\<close> specialisation succeeds for \<^verbatim>\<open>NUMERIC\<close> (the
  repeating processor) and throws \<^verbatim>\<open>std::invalid_argument\<close> for every other value:
  "not supported for strings" for \<^verbatim>\<open>STATISTICAL\<close>, \<^verbatim>\<open>FILTERING\<close> and
  \<^verbatim>\<open>AMPLIFICATION\<close>, "Unknown processor type" for the rest.
\<close>

theorem createProcessor_failures:
  "createProcessor cast NUMERIC params
     = Inr (NumericProcessor (cast (case params ''multiplier'' of Some v \<Rightarrow> v | None \<Rightarrow> 2)))
   \<and> createProcessor cast STATISTICAL params = Inr StatisticalProcessor_made
   \<and> createProcessor cast FILTERING params
       = Inr (FilteringProcessor (cast (case params ''threshold'' of Some v \<Rightarrow> v | None \<Rightarrow> 0)))
   \<and> createProcessor cast AMPLIFICATION params
       = Inr (AmplificationProcessor (case params ''gain'' of Some v \<Rightarrow> v | None \<Rightarrow> 3 / 2))
   \<and> isl (createProcessor cast type params) = (type \<notin> {NUMERIC, STATISTICAL, FILTERING, AMPLIFICATION})
   \<and> (type \<notin> {NUMERIC, STATISTICAL, FILTERING, AMPLIFICATION} \<longrightarrow>
        createProcessor cast type params = Inl (invalid_argument ''Unknown processor type''))
   \<and> createProcessor_string cast_int NUMERIC params
       = Inr (NumericProcessor_string (case params ''repetitions'' of Some v \<Rightarrow> cast_int v | None \<Rightarrow> 2))
   \<and> isl (createProcessor_string cast_int type params) = (type \<noteq> NUMERIC)
   \<and> (type \<in> {STATISTICAL, FILTERING, AMPLIFICATION} \<longrightarrow>
        createProcessor_string cast_int type params
          = Inl (invalid_argument ''This processor type is not supported for strings''))
   \<and> (type \<notin> {NUMERIC, STATISTICAL, FILTERING, AMPLIFICATION} \<longrightarrow>
        createProcessor_string cast_int type params = Inl (invalid_argument ''Unknown processor type''))"
  by (simp add: createProcessor_def createProcessor_string_def Let_def
      NUMERIC_def STATISTICAL_def FILTERING_def AMPLIFICATION_def)

theorem createProcessor_failures_witness:
  "createProcessor static_cast_int NUMERIC Map.empty = Inr (NumericProcessor 2)
   \<and> createProcessor static_cast_int AMPLIFICATION Map.empty = Inr (AmplificationProcessor (3 / 2))
   \<and> createProcessor static_cast_int 7 Map.empty = Inl (invalid_argument ''Unknown processor type'')
   \<and> createProcessor_string static_cast_int NUMERIC Map.empty = Inr (NumericProcessor_string 2)
   \<and> createProcessor_string static_cast_int STATISTICAL Map.empty
       = Inl (invalid_argument ''This processor type is not supported for strings'')
   \<and> createProcessor_string static_cast_int FILTERING Map.empty
       = Inl (invalid_argument ''This processor type is not supported for strings'')
   \<and> createProcessor_string static_cast_int AMPLIFICATION Map.empty
       = Inl (invalid_argument ''This processor type is not supported for strings'')
   \<and> createProcessor_string static_cast_int 7 Map.empty = Inl (invalid_argument ''Unknown processor type'')"
  using createProcessor_failures [of static_cast_int Map.empty 7 static_cast_int]
    createProcessor_failures [of static_cast_int Map.empty STATISTICAL static_cast_int]
    createProcessor_failures [of static_cast_int Map.empty FILTERING static_cast_int]
    createProcessor_failures [of static_cast_int Map.empty AMPLIFICATION static_cast_int]
  by (simp add: static_cast_int_def NUMERIC_def STATISTICAL_def FILTERING_def AMPLIFICATION_def)

section \<open>Properties of the pipeline\<close>

subsection \<open>Worker steps and joins\<close>

lemma dequeue_tail_frame:
  "m_maxSize (snd (dequeue_tail q)) = m_maxSize q \<and> m_shutdown (snd (dequeue_tail q)) = m_shutdown q"
  by (simp add: dequeue_tail_def split: list.splits)

lemma frame_refl: "frame p p"
  by (auto simp: frame_def intro: exI [of _ 0])

lemma frame_trans: "frame p p' \<Longrightarrow> frame p' p'' \<Longrightarrow> frame p p''"
  unfolding frame_def by (elim conjE exE) (auto simp: )

lemma workerThread_step_total: "catchable p \<Longrightarrow> \<exists>p'. workerThread_step i p = Some p'"
  by (auto simp: workerThread_step_def catchable_def dequeue_quiet enqueue_quiet Let_def
      split: worker.splits option.splits prod.splits outcome.splits)

lemma workerThread_step_frame:
  assumes "workerThread_step i p = Some p'"
  shows "frame p p'"
  using assms
  by (auto simp: workerThread_step_def dequeue_quiet enqueue_quiet Let_def frame_def dequeue_tail_def
      split: worker.splits option.splits prod.splits outcome.splits if_splits list.splits
      intro: exI [of _ 0] exI [of _ "Suc 0"])

lemma workerThread_steps_frame:
  "workerThread_steps is p = Some p' \<Longrightarrow> frame p p'"
proof (induction "is" arbitrary: p)
  case Nil
  then show ?case by (simp add: frame_refl)
next
  case (Cons i "is")
  then obtain p1 where s: "workerThread_step i p = Some p1" and r: "workerThread_steps is p1 = Some p'"
    by (auto split: option.splits)
  from workerThread_step_frame [OF s] Cons.IH [OF r] show ?case by (rule frame_trans)
qed

lemma join_Some:
  assumes "join sched t p = Some p'"
  shows "frame p p' \<and> list_all (\<lambda>w. w = Finished) (m_workers p')"
proof (rule join.raw_induct [where P = "\<lambda>sched t p p'. frame p p' \<and> list_all (\<lambda>w. w = Finished) (m_workers p')",
      OF _ assms])
  fix j :: "(nat \<Rightarrow> nat) \<Rightarrow> nat \<Rightarrow> ('a, 'b) ProcessingSystem \<Rightarrow> ('a, 'b) ProcessingSystem option"
  fix sched t p p'
  assume IH: "\<And>sched t p p'. j sched t p = Some p' \<Longrightarrow> frame p p' \<and> list_all (\<lambda>w. w = Finished) (m_workers p')"
  assume eq: "(if list_all (\<lambda>w. w = Finished) (m_workers p) then Some p
      else Option.bind (workerThread_step (sched t) p) (j sched (Suc t))) = Some p'"
  show "frame p p' \<and> list_all (\<lambda>w. w = Finished) (m_workers p')"
  proof (cases "list_all (\<lambda>w. w = Finished) (m_workers p)")
    case True
    with eq show ?thesis by (simp add: frame_refl)
  next
    case False
    with eq obtain p1 where s: "workerThread_step (sched t) p = Some p1" and r: "j sched (Suc t) p1 = Some p'"
      by (auto simp: bind_eq_Some_conv)
    from workerThread_step_frame [OF s] IH [OF r] show ?thesis
      by (blast intro: frame_trans)
  qed
qed

subsection \<open>Start and stop\<close>

lemma start_frame:
  "m_shutdown (m_inputQueue (start p)) = m_shutdown (m_inputQueue p)
   \<and> m_inputQueue (start p) = m_inputQueue p \<and> m_outputQueue (start p) = m_outputQueue p
   \<and> m_processor (start p) = m_processor p"
  by (simp add: start_def Let_def split: option.splits)

lemma start_running: "m_processor p \<noteq> None \<Longrightarrow> m_isRunning (start p)"
  by (auto simp: start_def Let_def split: option.splits)

lemma start_workers:
  "m_processor p \<noteq> None \<Longrightarrow> \<not> m_isRunning p \<Longrightarrow>
   m_workers (start p) = m_workers p @ replicate (m_numWorkers p) Looping"
  by (auto simp: start_def Let_def split: option.splits)

lemma start_no_processor: "m_processor p = None \<Longrightarrow> start p = p"
  by (simp add: start_def Let_def)

lemma stop_not_running: "\<not> m_isRunning p \<Longrightarrow> stop sched p = Some p"
  by (simp add: stop_def)

lemma stop_running:
  assumes "stop sched p = Some p'" and "m_isRunning p"
  shows "\<not> m_isRunning p' \<and> m_workers p' = [] \<and> m_numWorkers p' = m_numWorkers p
     \<and> m_shutdown (m_inputQueue p')
     \<and> m_shutdown (m_outputQueue p') = m_shutdown (m_outputQueue p)
     \<and> m_maxSize (m_inputQueue p') = m_maxSize (m_inputQueue p)
     \<and> m_maxSize (m_outputQueue p') = m_maxSize (m_outputQueue p)
     \<and> (\<exists>k. m_queue (m_inputQueue p') = drop k (m_queue (m_inputQueue p)))
     \<and> (\<exists>ys. m_queue (m_outputQueue p') = m_queue (m_outputQueue p) @ ys)
     \<and> (m_processor p' = None) = (m_processor p = None)"
proof -
  let ?p1 = "p\<lparr>m_isRunning := False, m_inputQueue := shutdown (m_inputQueue p)\<rparr>"
  from assms obtain p2 where j: "join sched 0 ?p1 = Some p2" and p': "p' = p2\<lparr>m_workers := []\<rparr>"
    by (auto simp: stop_def split: option.splits)
  from join_Some [OF j] have "frame ?p1 p2" by simp
  then show ?thesis using p' by (simp add: frame_def shutdown_def)
qed

lemma stop_stopped: "stop sched p = Some p' \<Longrightarrow> \<not> m_isRunning p'"
  using stop_running [of sched p p'] by (cases "m_isRunning p") (simp_all add: stop_def)

lemma stop_output:
  assumes "stop sched p = Some p'"
  shows "m_shutdown (m_outputQueue p') = m_shutdown (m_outputQueue p)
     \<and> (\<exists>ys. m_queue (m_outputQueue p') = m_queue (m_outputQueue p) @ ys)"
proof (cases "m_isRunning p")
  case True
  with stop_running [OF assms] show ?thesis by simp
next
  case False
  with assms show ?thesis by (simp add: stop_def)
qed

text \<open>
  Under the round-robin schedule \<^verbatim>\<open>stop()\<close> returns on every pipeline whose
  processor throws nothing but a \<^verbatim>\<open>std::exception\<close>: each step of a worker that has
  not left its loop uses up some of the work that is left, and no new work arrives.
\<close>

lemma step_finished:
  "i < length (m_workers p) \<Longrightarrow> m_workers p ! i = Finished \<Longrightarrow> workerThread_step i p = Some p"
  by (simp add: workerThread_step_def)

lemma weight_update:
  "i < length ws \<Longrightarrow> sum_list (map weight (ws[i := w])) + weight (ws ! i) = sum_list (map weight ws) + weight w"
proof (induction ws arbitrary: i)
  case Nil
  then show ?case by simp
next
  case (Cons a ws)
  then show ?case by (cases i) (simp_all add: algebra_simps)
qed

lemma workerThread_step_catchable:
  "workerThread_step i p = Some p' \<Longrightarrow> catchable p \<Longrightarrow> catchable p'"
  by (auto simp: workerThread_step_def catchable_def Let_def
      split: worker.splits option.splits prod.splits outcome.splits if_splits bool.splits)

lemma step_progress:
  assumes "\<not> m_isRunning p" and "i < length (m_workers p)" and "m_workers p ! i \<noteq> Finished"
    and "catchable p"
  shows "\<exists>p'. workerThread_step i p = Some p' \<and> work_left p' < work_left p
     \<and> \<not> m_isRunning p' \<and> length (m_workers p') = length (m_workers p) \<and> catchable p'"
proof -
  have "\<exists>p'. workerThread_step i p = Some p' \<and> work_left p' < work_left p
     \<and> \<not> m_isRunning p' \<and> length (m_workers p') = length (m_workers p)"
  proof (cases "m_workers p ! i")
    case Finished
    with assms show ?thesis by simp
  next
    case Looping
    note u = weight_update [OF assms(2), where w = "Holding x" for x] weight_update [OF assms(2), where w = Finished]
    show ?thesis
    proof (cases "m_queue (m_inputQueue p)")
      case Nil
      then show ?thesis using assms(1-3) Looping u(2)
        by (simp add: workerThread_step_def empty_q_def work_left_def)
    next
      case (Cons x xs)
      then show ?thesis using assms(1-3) Looping u(1) [of x]
        by (simp add: workerThread_step_def empty_q_def work_left_def dequeue_quiet notEmpty_pred_def
            dequeue_tail_def)
    qed
  next
    case (Holding item)
    note u = weight_update [OF assms(2), where w = Looping]
    have c: "m_processor p = Some pr \<Longrightarrow> process pr s x \<noteq> (s', Threw_other)" for pr s x s'
      using assms(4) by (simp add: catchable_def)
    show ?thesis using assms(1-3) Holding u c
      by (auto simp: workerThread_step_def work_left_def enqueue_quiet Let_def
          split: option.splits prod.splits outcome.splits)
  qed
  then obtain p' where s: "workerThread_step i p = Some p'" and r: "work_left p' < work_left p
     \<and> \<not> m_isRunning p' \<and> length (m_workers p') = length (m_workers p)"
    by blast
  from workerThread_step_catchable [OF s assms(4)] s r show ?thesis by blast
qed

lemma join_terminates:
  "\<not> m_isRunning p \<Longrightarrow> catchable p \<Longrightarrow>
   \<exists>p'. join (round_robin (length (m_workers p))) t p = Some p'"
proof (induction "work_left p" arbitrary: p t rule: less_induct)
  case less
  let ?n = "length (m_workers p)"
  show ?case
  proof (cases "list_all (\<lambda>w. w = Finished) (m_workers p)")
    case True
    then show ?thesis by (subst join.simps) simp
  next
    case False
    then obtain j where j: "j < ?n" "m_workers p ! j \<noteq> Finished"
      by (auto simp: list_all_length)
    from j(1) have n: "0 < ?n" by linarith
    have progress: "\<exists>p'. join (round_robin ?n) t p = Some p'"
      if "m_workers p ! (t mod ?n) \<noteq> Finished" for t
    proof -
      have "t mod ?n < ?n" using n by simp
      from step_progress [OF less.prems(1) this that less.prems(2)] obtain p1
        where s: "workerThread_step (t mod ?n) p = Some p1" and m: "work_left p1 < work_left p"
          and r: "\<not> m_isRunning p1" and l: "length (m_workers p1) = ?n" and c: "catchable p1"
        by blast
      from less.hyps [OF m r c, of "Suc t"] l obtain p' where "join (round_robin ?n) (Suc t) p1 = Some p'"
        by auto
      then have "join (round_robin ?n) t p = Some p'"
        using False s by (subst join.simps) (simp add: round_robin_def)
      then show ?thesis ..
    qed
    have inner: "m_workers p ! ((t + k) mod ?n) \<noteq> Finished \<Longrightarrow> \<exists>p'. join (round_robin ?n) t p = Some p'" for k t
    proof (induction k arbitrary: t)
      case 0
      then show ?case using progress [of t] by simp
    next
      case (Suc k)
      show ?case
      proof (cases "m_workers p ! (t mod ?n) = Finished")
        case True
        have "t mod ?n < ?n" using n by simp
        from step_finished [OF this True] have s: "workerThread_step (t mod ?n) p = Some p" .
        from Suc.IH [of "Suc t"] Suc.prems obtain p' where "join (round_robin ?n) (Suc t) p = Some p'"
          by auto
        then have "join (round_robin ?n) t p = Some p'"
          using False s by (subst join.simps) (simp add: round_robin_def)
        then show ?thesis ..
      next
        case False
        then show ?thesis by (rule progress)
      qed
    qed
    have "(t + (j + (?n - 1) * t)) mod ?n = j"
    proof -
      have "t + (j + (?n - 1) * t) = j + ?n * t"
        using n by (cases ?n) (simp_all add: algebra_simps)
      then have "(t + (j + (?n - 1) * t)) mod ?n = (j + ?n * t) mod ?n" by (simp only:)
      also have "\<dots> = j" using j(1) by simp
      finally show ?thesis .
    qed
    with inner [of t "j + (?n - 1) * t"] j(2) show ?thesis by simp
  qed
qed

lemma stop_completes:
  assumes "catchable p"
  shows "\<exists>p'. stop (round_robin (length (m_workers p))) p = Some p'"
proof (cases "m_isRunning p")
  case False
  then show ?thesis by (simp add: stop_def)
next
  case True
  let ?p1 = "p\<lparr>m_isRunning := False, m_inputQueue := shutdown (m_inputQueue p)\<rparr>"
  have c: "catchable ?p1" using assms by (simp add: catchable_def)
  have "\<not> m_isRunning ?p1" by simp
  from join_terminates [OF this c, of 0] obtain p2
    where "join (round_robin (length (m_workers p))) 0 ?p1 = Some p2" by auto
  then show ?thesis using True by (simp add: stop_def)
qed

subsection \<open>The example pipelines\<close>

lemma example_stop:
  "stop (round_robin 1) example_running
     = Some example_stopped"
  apply (simp add: stop_def start_def setProcessor_def ProcessingSystem_def Let_def)
  apply (subst join.simps)
  apply (simp add: workerThread_step_def round_robin_def empty_q_def shutdown_def DataQueue_def)
  apply (subst join.simps)
  apply simp
  done

lemma example_restart_step:
  "workerThread_steps [0] (start example_stopped)
    = Some (start example_stopped)"
  by (simp add: start_def ProcessingSystem_def Let_def workerThread_step_def dequeue_quiet
      notEmpty_pred_def shutdown_def DataQueue_def dequeue_tail_def)

lemma example_drain: "stop (round_robin 1) example_busy = Some example_drained"
proof -
  let ?p0 = "example_busy\<lparr>m_isRunning := False, m_inputQueue := shutdown (m_inputQueue example_busy)\<rparr>"
  let ?p1 = "?p0\<lparr>m_inputQueue := shutdown (DataQueue 3), m_workers := [Holding 5]\<rparr>"
  let ?p2 = "?p1\<lparr>m_workers := [Looping], m_outputQueue := (DataQueue 3)\<lparr>m_queue := [4, 10]\<rparr>, m_totalProcessed := 2\<rparr>"
  let ?p3 = "?p2\<lparr>m_workers := [Finished]\<rparr>"
  have s0: "workerThread_step (round_robin 1 0) ?p0 = Some ?p1"
    by (simp add: workerThread_step_def round_robin_def ProcessingSystem_def empty_q_def dequeue_quiet
        notEmpty_pred_def dequeue_tail_def shutdown_def DataQueue_def)
  have s1: "workerThread_step (round_robin 1 (Suc 0)) ?p1 = Some ?p2"
    by (simp add: workerThread_step_def round_robin_def ProcessingSystem_def enqueue_quiet
        notFull_pred_def shutdown_def DataQueue_def NumericProcessor_int_def NumericProcessor_process_def Let_def)
  have s2: "workerThread_step (round_robin 1 (Suc (Suc 0))) ?p2 = Some ?p3"
    by (simp add: workerThread_step_def round_robin_def ProcessingSystem_def empty_q_def shutdown_def DataQueue_def)
  have c0: "\<not> list_all (\<lambda>w. w = Finished) (m_workers ?p0)" by simp
  have c1: "\<not> list_all (\<lambda>w. w = Finished) (m_workers ?p1)" by simp
  have c2: "\<not> list_all (\<lambda>w. w = Finished) (m_workers ?p2)" by simp
  have c3: "list_all (\<lambda>w. w = Finished) (m_workers ?p3)" by simp
  have j3: "join (round_robin 1) (Suc (Suc (Suc 0))) ?p3 = Some ?p3"
    by (subst join.simps) (simp only: c3 if_True)
  have j2: "join (round_robin 1) (Suc (Suc 0)) ?p2 = Some ?p3"
    by (subst join.simps) (simp only: c2 if_False s2 Option.bind.simps j3)
  have j1: "join (round_robin 1) (Suc 0) ?p1 = Some ?p3"
    by (subst join.simps) (simp only: c1 if_False s1 Option.bind.simps j2)
  have j0: "join (round_robin 1) 0 ?p0 = Some ?p3"
    by (subst join.simps) (simp only: c0 if_False s0 Option.bind.simps j1)
  have r: "m_isRunning example_busy" by simp
  have "stop (round_robin 1) example_busy = Some (?p3\<lparr>m_workers := []\<rparr>)"
    unfolding stop_def by (simp only: r not_True_eq_False if_False j0 option.simps)
  also have "?p3\<lparr>m_workers := []\<rparr> = example_drained"
    by (simp add: ProcessingSystem_def shutdown_def DataQueue_def)
  finally show ?thesis .
qed

subsection \<open>Submitting\<close>

lemma addData_space:
  "m_isRunning p \<Longrightarrow> notFull_pred (m_inputQueue p) \<Longrightarrow>
   addData item timeoutMs e p
     = Some (True, p\<lparr>m_inputQueue := (m_inputQueue p)\<lparr>m_queue := m_queue (m_inputQueue p) @ [item]\<rparr>\<rparr>)"
  by (simp add: addData_def enqueue_space)

lemma addData_timed_after_shutdown:
  "m_isRunning p \<Longrightarrow> m_shutdown (m_inputQueue p) \<Longrightarrow> 0 < timeoutMs \<Longrightarrow>
   addData item timeoutMs e p
     = Some (False, p\<lparr>m_inputQueue := rounds (wakeups e) (others e) 0 (m_inputQueue p)\<rparr>)"
  by (simp add: addData_def enqueue_timed_after_shutdown)

text \<open>
  Claim C7. On a pipeline that is not running, \<^verbatim>\<open>addData\<close> returns false and the
  pipeline is unchanged. On a running one it is the input queue's \<^verbatim>\<open>enqueue\<close> with
  the same item and timeout: the same result, the input queue that call leaves, nothing
  else changed, and no return when that call does not return.
\<close>

theorem addData_gate:
  "(\<not> m_isRunning p \<longrightarrow> addData data timeoutMs e p = Some (False, p))
   \<and> (m_isRunning p \<longrightarrow>
        addData data timeoutMs e p
          = map_option (\<lambda>(r, q). (r, p\<lparr>m_inputQueue := q\<rparr>)) (enqueue data timeoutMs e (m_inputQueue p)))"
  by (auto simp: addData_def split: option.splits)

theorem addData_gate_witness:
  "\<not> m_isRunning example_fresh
   \<and> addData 7 1000 (quiet 0) example_fresh = Some (False, example_fresh)
   \<and> m_isRunning example_running
   \<and> addData 7 1000 (quiet 0) example_running
       = Some (True, example_running\<lparr>m_inputQueue := (DataQueue 3)\<lparr>m_queue := [7]\<rparr>\<rparr>)"
proof -
  have n: "\<not> m_isRunning example_fresh" by (simp add: ProcessingSystem_def)
  have r: "m_isRunning example_running"
    by (simp add: start_def setProcessor_def ProcessingSystem_def Let_def)
  have q: "m_inputQueue example_running = DataQueue 3"
    by (simp add: start_def setProcessor_def ProcessingSystem_def Let_def)
  have e: "enqueue (7::int32) 1000 (quiet 0) (DataQueue 3) = Some (True, (DataQueue 3)\<lparr>m_queue := [7]\<rparr>)"
    by (simp add: enqueue_space notFull_pred_def DataQueue_def)
  note th1 = addData_gate [of example_fresh 7 1000 "quiet 0", THEN conjunct1, THEN mp, OF n]
  note th2 = addData_gate [of example_running 7 1000 "quiet 0", THEN conjunct2, THEN mp, OF r]
  have a: "addData 7 1000 (quiet 0) example_running
       = Some (True, example_running\<lparr>m_inputQueue := (DataQueue 3)\<lparr>m_queue := [7]\<rparr>\<rparr>)"
    unfolding th2 q e by simp
  from n th1 r a show ?thesis by - (intro conjI; assumption)
qed

subsection \<open>Starting without a processor\<close>

lemma getResults_loop_frame:
  "getResults_loop n timeoutMs es i rs p = Some (rs', p') \<Longrightarrow> \<exists>q. p' = p\<lparr>m_outputQueue := q\<rparr>"
proof (induction n arbitrary: i rs p)
  case 0
  then have "p' = p\<lparr>m_outputQueue := m_outputQueue p\<rparr>" by simp
  then show ?case ..
next
  case (Suc n)
  then obtain r q where d: "dequeue timeoutMs (es i) (m_outputQueue p) = Some (r, q)"
    by (cases "dequeue timeoutMs (es i) (m_outputQueue p)") auto
  obtain rs1 where "getResults_loop n timeoutMs es (Suc i) rs1 (p\<lparr>m_outputQueue := q\<rparr>) = Some (rs', p')"
    using Suc.prems d by (cases r) auto
  from Suc.IH [OF this] obtain q' where "p' = p\<lparr>m_outputQueue := q, m_outputQueue := q'\<rparr>" ..
  then have "p' = p\<lparr>m_outputQueue := q'\<rparr>" by simp
  then show ?case ..
qed

lemma do_event_idle:
  assumes "idle p" and "do_event ev p = Some p'" and "\<not> is_SetProcessor ev"
  shows "idle p'"
proof (cases ev)
  case Start
  with assms show ?thesis by (simp add: idle_def start_no_processor)
next
  case (Stop sched)
  with assms show ?thesis by (simp add: idle_def stop_def)
next
  case (SetProcessor pr)
  with assms show ?thesis by simp
next
  case (AddData d t e)
  with assms show ?thesis by (simp add: idle_def addData_def)
next
  case (GetResult t e)
  with assms show ?thesis by (auto simp: idle_def getResult_def split: option.splits)
next
  case (GetResults n t es)
  with assms obtain rs where "getResults_loop n t es 0 [] p = Some (rs, p')"
    by (auto simp: getResults_def)
  from getResults_loop_frame [OF this] assms(1) show ?thesis by (auto simp: idle_def)
next
  case (WorkerStep i)
  with assms show ?thesis by (simp add: idle_def workerThread_step_def)
qed

lemma run_idle:
  "idle p \<Longrightarrow> run evs p = Some p' \<Longrightarrow> \<not> list_ex is_SetProcessor evs \<Longrightarrow> idle p'"
proof (induction evs arbitrary: p)
  case Nil
  then show ?case by simp
next
  case (Cons ev evs)
  then obtain p1 where s: "do_event ev p = Some p1" and r: "run evs p1 = Some p'"
    by (auto split: option.splits)
  from Cons.prems have "\<not> is_SetProcessor ev" and n: "\<not> list_ex is_SetProcessor evs" by simp_all
  from do_event_idle [OF Cons.prems(1) s this(1)] have "idle p1" .
  from Cons.IH [OF this r n] show ?case .
qed

lemma getResult_empty_quiet:
  "m_queue (m_outputQueue p) = [] \<Longrightarrow> \<not> m_shutdown (m_outputQueue p) \<Longrightarrow> 0 < timeoutMs \<Longrightarrow>
   getResult timeoutMs (quiet n) p = Some (None, p)"
  by (simp add: getResult_def dequeue_empty_timeout notEmpty_pred_def)

text \<open>
  Claim C8. On a pipeline on which no processor was ever installed, whatever else has
  been called on it since its construction, \<^verbatim>\<open>start()\<close> changes nothing: afterwards
  the running flag is false and there are no worker threads.
\<close>

theorem start_without_processor:
  assumes "run evs (ProcessingSystem numWorkers queueSize) = Some p"
    and "\<not> list_ex is_SetProcessor evs"
  shows "m_processor p = None \<and> start p = p \<and> \<not> m_isRunning (start p) \<and> m_workers (start p) = []"
proof -
  have "idle (ProcessingSystem numWorkers queueSize)"
    by (simp add: idle_def ProcessingSystem_def)
  from run_idle [OF this assms] have i: "idle p" .
  then have "start p = p" by (simp add: idle_def start_no_processor)
  with i show ?thesis by (simp add: idle_def)
qed

theorem start_without_processor_witness:
  "run [Start, AddData 7 1000 (quiet 0), Stop (round_robin 1), GetResult 1000 (quiet 0), WorkerStep 0]
       example_fresh = Some example_fresh
   \<and> \<not> list_ex is_SetProcessor
         [Start, AddData 7 1000 (quiet 0), Stop (round_robin 1), GetResult 1000 (quiet 0), WorkerStep 0
            :: (int32, int32) event]
   \<and> m_processor example_fresh = None
   \<and> start example_fresh = example_fresh
   \<and> \<not> m_isRunning (start example_fresh)
   \<and> m_workers (start example_fresh) = []"
proof -
  let ?evs = "[Start, AddData 7 1000 (quiet 0), Stop (round_robin 1), GetResult 1000 (quiet 0), WorkerStep 0]
      :: (int32, int32) event list"
  have s: "start example_fresh = example_fresh"
    by (rule start_no_processor) (simp add: ProcessingSystem_def)
  have a: "addData 7 1000 (quiet 0) example_fresh = Some (False, example_fresh)"
    by (simp add: addData_def ProcessingSystem_def)
  have st: "stop (round_robin 1) example_fresh = Some example_fresh"
    by (rule stop_not_running) (simp add: ProcessingSystem_def)
  have g: "getResult 1000 (quiet 0) example_fresh = Some (None, example_fresh)"
    by (rule getResult_empty_quiet) (simp_all add: ProcessingSystem_def DataQueue_def)
  have w: "workerThread_step 0 example_fresh = Some example_fresh"
    by (simp add: workerThread_step_def ProcessingSystem_def)
  have h1: "run ?evs example_fresh = Some example_fresh"
    by (simp only: run.simps do_event.simps s a st g w option.simps option.map snd_conv)
  have h2: "\<not> list_ex is_SetProcessor ?evs" by simp
  note th = start_without_processor [OF h1 h2]
  from h1 h2 th show ?thesis by - (intro conjI; (elim conjE)?; assumption)
qed

subsection \<open>Starting again after a stop\<close>

text \<open>
  Claim C1, as amended. After a \<^verbatim>\<open>stop()\<close> that has returned, \<^verbatim>\<open>start()\<close> with a
  processor installed sets the running flag and adds \<^verbatim>\<open>numWorkers_\<close> workers, and
  the flag stays set whatever steps the workers take. The input queue's shutdown flag
  is then set exactly when that \<^verbatim>\<open>stop()\<close> found the pipeline running or the flag
  was set before: \<^verbatim>\<open>stop()\<close> sets it and nothing clears it. With the flag clear and
  the input queue below capacity, \<^verbatim>\<open>addData\<close> returns true and the item is at the
  back of the queue. With the flag set, \<^verbatim>\<open>addData\<close> with a positive timeout returns
  false and enqueues nothing: the queue is what the other threads made of it meanwhile,
  a suffix of what it was.
\<close>

theorem restart_after_stop:
  assumes "stop sched p = Some p'" and "m_processor p' \<noteq> None"
    and "workerThread_steps is (start p') = Some p''"
  shows "m_isRunning (start p')
     \<and> m_workers (start p') = m_workers p' @ replicate (m_numWorkers p') Looping
     \<and> m_isRunning p''
     \<and> m_shutdown (m_inputQueue p'') = (m_isRunning p \<or> m_shutdown (m_inputQueue p))
     \<and> (\<not> m_shutdown (m_inputQueue p'') \<and> length (m_queue (m_inputQueue p'')) < m_maxSize (m_inputQueue p'') \<longrightarrow>
           addData item timeoutMs e p''
             = Some (True, p''\<lparr>m_inputQueue := (m_inputQueue p'')\<lparr>m_queue := m_queue (m_inputQueue p'') @ [item]\<rparr>\<rparr>))
     \<and> (m_shutdown (m_inputQueue p'') \<and> 0 < timeoutMs \<longrightarrow>
           addData item timeoutMs e p''
             = Some (False, p''\<lparr>m_inputQueue := rounds (wakeups e) (others e) 0 (m_inputQueue p'')\<rparr>)
           \<and> (\<exists>k. m_queue (rounds (wakeups e) (others e) 0 (m_inputQueue p'')) = drop k (m_queue (m_inputQueue p''))))"
proof -
  have r: "m_isRunning (start p')" using assms(2) by (rule start_running)
  have w: "m_workers (start p') = m_workers p' @ replicate (m_numWorkers p') Looping"
    using assms(2) stop_stopped [OF assms(1)] by (rule start_workers)
  from workerThread_steps_frame [OF assms(3)] have f: "frame (start p') p''" .
  then have r'': "m_isRunning p''" using r by (simp add: frame_def)
  have s'': "m_shutdown (m_inputQueue p'') = m_shutdown (m_inputQueue p')"
    using f start_frame [of p'] by (simp add: frame_def)
  have s': "m_shutdown (m_inputQueue p') = (m_isRunning p \<or> m_shutdown (m_inputQueue p))"
  proof (cases "m_isRunning p")
    case True
    with stop_running [OF assms(1)] show ?thesis by simp
  next
    case False
    with assms(1) show ?thesis by (simp add: stop_def)
  qed
  have a: "\<not> m_shutdown (m_inputQueue p'') \<and> length (m_queue (m_inputQueue p'')) < m_maxSize (m_inputQueue p'') \<longrightarrow>
           addData item timeoutMs e p''
             = Some (True, p''\<lparr>m_inputQueue := (m_inputQueue p'')\<lparr>m_queue := m_queue (m_inputQueue p'') @ [item]\<rparr>\<rparr>)"
    using r'' by (simp add: addData_space notFull_pred_def)
  have b: "m_shutdown (m_inputQueue p'') \<and> 0 < timeoutMs \<longrightarrow>
           addData item timeoutMs e p''
             = Some (False, p''\<lparr>m_inputQueue := rounds (wakeups e) (others e) 0 (m_inputQueue p'')\<rparr>)
           \<and> (\<exists>k. m_queue (rounds (wakeups e) (others e) 0 (m_inputQueue p'')) = drop k (m_queue (m_inputQueue p'')))"
    using r'' by (simp add: addData_timed_after_shutdown rounds_shutdown_drop)
  from r w r'' s'' s' a b show ?thesis by simp
qed

text \<open>
  Claim C1 as stated fails: a pipeline with one worker and capacity 3 is started with a
  processor and stopped; \<^verbatim>\<open>stop()\<close> returns. After \<^verbatim>\<open>start()\<close> it is running and
  its input queue is empty, below its capacity of 3, and yet \<^verbatim>\<open>addData(7, 1000)\<close>
  returns false and leaves the pipeline as it was.
\<close>

theorem restart_after_stop_counterexample:
  "stop (round_robin 1) example_running
     = Some example_stopped
   \<and> m_processor example_stopped \<noteq> None
   \<and> m_isRunning (start example_stopped)
   \<and> length (m_queue (m_inputQueue (start example_stopped)))
       < m_maxSize (m_inputQueue (start example_stopped))
   \<and> addData 7 1000 (quiet 0) (start example_stopped)
       = Some (False, start example_stopped)"
proof -
  let ?S = "example_stopped"
  have 1: "m_processor ?S \<noteq> None" by simp
  have 2: "m_isRunning (start ?S)" using 1 by (rule start_running)
  have 3: "m_inputQueue (start ?S) = \<lparr>m_queue = [], m_maxSize = 3, m_shutdown = True\<rparr>"
    using start_frame [of ?S] by simp
  have 4: "length (m_queue (m_inputQueue (start ?S))) < m_maxSize (m_inputQueue (start ?S))"
    unfolding 3 by simp
  have sh: "m_shutdown (m_inputQueue (start ?S))"
    unfolding 3 by simp
  have t: "(0::int) < 1000" by simp
  note a = addData_timed_after_shutdown [OF 2 sh t, where item = 7 and e = "quiet 0"]
  have 5: "addData 7 1000 (quiet 0) (start ?S) = Some (False, start ?S)"
    using a by (simp add: quiet_def)
  from example_stop 1 2 4 5 show ?thesis by - (intro conjI; assumption)
qed

theorem restart_after_stop_witness:
  "stop (round_robin 1) example_running = Some example_stopped
   \<and> m_processor example_stopped \<noteq> None
   \<and> workerThread_steps [0] (start example_stopped) = Some (start example_stopped)
   \<and> m_isRunning (start example_stopped)
   \<and> m_workers (start example_stopped) = [Looping]
   \<and> m_shutdown (m_inputQueue (start example_stopped))
   \<and> (0::int) < 1000
   \<and> addData 7 1000 (quiet 0) (start example_stopped) = Some (False, start example_stopped)
   \<and> stop (round_robin 1) (setProcessor (NumericProcessor_int 2) example_fresh)
       = Some (setProcessor (NumericProcessor_int 2) example_fresh)
   \<and> workerThread_steps [] example_running = Some example_running
   \<and> \<not> m_shutdown (m_inputQueue example_running)
   \<and> addData 7 1000 (quiet 0) example_running
       = Some (True, example_running\<lparr>m_inputQueue := (DataQueue 3)\<lparr>m_queue := [7]\<rparr>\<rparr>)"
proof -
  let ?S = "example_stopped"
  let ?N = "setProcessor (NumericProcessor_int 2) example_fresh"
  have h1: "stop (round_robin 1) example_running = Some ?S" by (rule example_stop)
  have h2: "m_processor ?S \<noteq> None" by simp
  have h3: "workerThread_steps [0] (start ?S) = Some (start ?S)" by (rule example_restart_step)
  have r: "m_isRunning example_running" by (simp add: start_def setProcessor_def ProcessingSystem_def Let_def)
  have t: "(0::int) < 1000" by simp
  note th = restart_after_stop [OF h1 h2 h3, where item = 7 and timeoutMs = 1000 and e = "quiet 0"]
  have r': "m_isRunning (start ?S)" by (rule th [THEN conjunct1])
  have w: "m_workers (start ?S) = [Looping]"
    using th [THEN conjunct2, THEN conjunct1] by (simp add: ProcessingSystem_def)
  have s: "m_shutdown (m_inputQueue (start ?S))"
    by (rule th [THEN conjunct2, THEN conjunct2, THEN conjunct2, THEN conjunct1, THEN iffD2, OF disjI1, OF r])
  note a0 = th [THEN conjunct2, THEN conjunct2, THEN conjunct2, THEN conjunct2, THEN conjunct2, THEN mp, OF conjI, OF s t, THEN conjunct1]
  have a: "addData 7 1000 (quiet 0) (start ?S) = Some (False, start ?S)"
    using a0 by (simp add: quiet_def)
  have n: "\<not> m_isRunning ?N" by (simp add: setProcessor_def ProcessingSystem_def)
  have k1: "stop (round_robin 1) ?N = Some ?N" using n by (rule stop_not_running)
  have k2: "m_processor ?N \<noteq> None" by (simp add: setProcessor_def)
  have k3: "workerThread_steps [] (start ?N) = Some (start ?N)" by simp
  note th' = restart_after_stop [OF k1 k2 k3, where item = 7 and timeoutMs = 1000 and e = "quiet 0"]
  have o: "\<not> m_shutdown (m_inputQueue example_running)"
    using th' [THEN conjunct2, THEN conjunct2, THEN conjunct2, THEN conjunct1]
    by (simp add: setProcessor_def ProcessingSystem_def DataQueue_def)
  have b: "addData 7 1000 (quiet 0) example_running
       = Some (True, example_running\<lparr>m_inputQueue := (DataQueue 3)\<lparr>m_queue := [7]\<rparr>\<rparr>)"
    using th' [THEN conjunct2, THEN conjunct2, THEN conjunct2, THEN conjunct2, THEN conjunct1]
    by (simp add: start_def setProcessor_def ProcessingSystem_def DataQueue_def Let_def)
  from h1 h2 h3 r' w s t a k1 k3 o b show ?thesis by - (intro conjI; assumption)
qed

subsection \<open>The output queue after a stop\<close>

lemma getResults_loop_enough:
  "n \<le> length (m_queue (m_outputQueue p)) \<Longrightarrow>
   getResults_loop n timeoutMs es i rs p
     = Some (rs @ take n (m_queue (m_outputQueue p)),
             p\<lparr>m_outputQueue := (m_outputQueue p)\<lparr>m_queue := drop n (m_queue (m_outputQueue p))\<rparr>\<rparr>)"
proof (induction n arbitrary: i rs p)
  case 0
  then show ?case by simp
next
  case (Suc n)
  then obtain x xs where q: "m_queue (m_outputQueue p) = x # xs"
    by (cases "m_queue (m_outputQueue p)") auto
  let ?p1 = "p\<lparr>m_outputQueue := (m_outputQueue p)\<lparr>m_queue := xs\<rparr>\<rparr>"
  have d: "dequeue timeoutMs (es i) (m_outputQueue p) = Some (Some x, (m_outputQueue p)\<lparr>m_queue := xs\<rparr>)"
    using q by (simp add: dequeue_ready notEmpty_pred_def dequeue_tail_def)
  have "n \<le> length (m_queue (m_outputQueue ?p1))" using Suc.prems q by simp
  from Suc.IH [OF this, of "Suc i" "rs @ [x]"] show ?case using d q by simp
qed

lemma run_acts_pops_empty:
  "m_queue q = [] \<Longrightarrow> list_all (\<lambda>a. a = OtherPop) as \<Longrightarrow> run_acts as q = q"
  by (induction as) (simp_all add: dequeue_tail_def)

lemma wait_for_notEmpty_pops:
  "m_queue q = [] \<Longrightarrow> \<not> m_shutdown q \<Longrightarrow> (\<And>i. list_all (\<lambda>a. a = OtherPop) (oth i)) \<Longrightarrow>
   wait_for notEmpty_pred n oth i q = (False, q)"
  by (induction n arbitrary: i) (simp_all add: notEmpty_pred_def run_acts_pops_empty)

lemma getResult_empty_untimed_blocks:
  "m_queue (m_outputQueue p) = [] \<Longrightarrow> \<not> m_shutdown (m_outputQueue p) \<Longrightarrow> timeoutMs \<le> 0 \<Longrightarrow>
   getResult timeoutMs (quiet n) p = None"
  by (simp add: getResult_def dequeue_empty_untimed_blocks notEmpty_pred_def)

text \<open>
  A timed wait returns at the first wake-up at which its predicate holds, and at its
  timeout when it holds at none; so does a timed \<^verbatim>\<open>getResult\<close>.
\<close>

lemma rounds_Suc_end: "rounds (Suc k) oth i q = run_acts (oth (i + k)) (rounds k oth i q)"
proof (induction k arbitrary: i q)
  case 0
  show ?case by simp
next
  case (Suc k)
  have "rounds (Suc (Suc k)) oth i q = rounds (Suc k) oth (Suc i) (run_acts (oth i) q)" by simp
  also have "\<dots> = run_acts (oth (Suc i + k)) (rounds k oth (Suc i) (run_acts (oth i) q))"
    by (rule Suc.IH)
  finally show ?case by simp
qed

lemma rounds_quiet_prefix: "(\<And>j. j < k \<Longrightarrow> oth (i + j) = []) \<Longrightarrow> rounds k oth i q = q"
proof (induction k)
  case 0
  show ?case by simp
next
  case (Suc k)
  have "rounds k oth i q = q" using Suc.prems by (intro Suc.IH) simp
  moreover have "oth (i + k) = []" using Suc.prems [of k] by simp
  ultimately show ?case by (simp add: rounds_Suc_end del: rounds.simps)
qed

lemma wait_for_first:
  "k \<le> n \<Longrightarrow> pred (rounds k oth i q) \<Longrightarrow> (\<And>j. j < k \<Longrightarrow> \<not> pred (rounds j oth i q)) \<Longrightarrow>
   wait_for pred n oth i q = (True, rounds k oth i q)"
proof (induction n arbitrary: k i q)
  case 0
  then show ?case by simp
next
  case (Suc n)
  show ?case
  proof (cases k)
    case 0
    with Suc.prems show ?thesis by simp
  next
    case (Suc k')
    with Suc.prems(3) [of 0] have np: "\<not> pred q" by simp
    have "wait_for pred n oth (Suc i) (run_acts (oth i) q) = (True, rounds k' oth (Suc i) (run_acts (oth i) q))"
    proof (rule Suc.IH)
      show "k' \<le> n" using Suc.prems(1) Suc by simp
      show "pred (rounds k' oth (Suc i) (run_acts (oth i) q))" using Suc.prems(2) Suc by simp
      show "\<not> pred (rounds j oth (Suc i) (run_acts (oth i) q))" if "j < k'" for j
        using Suc.prems(3) [of "Suc j"] that Suc by simp
    qed
    then show ?thesis using np Suc by simp
  qed
qed

lemma wait_for_never:
  "(\<And>k. k \<le> n \<Longrightarrow> \<not> pred (rounds k oth i q)) \<Longrightarrow>
   wait_for pred n oth i q = (False, rounds n oth i q)"
proof (induction n arbitrary: i q)
  case 0
  from 0 [of 0] show ?case by simp
next
  case (Suc n)
  from Suc.prems [of 0] have np: "\<not> pred q" by simp
  have "wait_for pred n oth (Suc i) (run_acts (oth i) q) = (False, rounds n oth (Suc i) (run_acts (oth i) q))"
  proof (rule Suc.IH)
    show "\<not> pred (rounds k oth (Suc i) (run_acts (oth i) q))" if "k \<le> n" for k
      using Suc.prems [of "Suc k"] that by simp
  qed
  then show ?case using np by simp
qed

lemma getResult_first:
  assumes "0 < timeoutMs" and "k \<le> wakeups e"
    and "notEmpty_pred (rounds k (others e) 0 (m_outputQueue p))"
    and "\<And>j. j < k \<Longrightarrow> \<not> notEmpty_pred (rounds j (others e) 0 (m_outputQueue p))"
  shows "getResult timeoutMs e p
      = Some (fst (dequeue_tail (rounds k (others e) 0 (m_outputQueue p))),
              p\<lparr>m_outputQueue := snd (dequeue_tail (rounds k (others e) 0 (m_outputQueue p)))\<rparr>)"
  using assms(1) wait_for_first [of k "wakeups e" notEmpty_pred "others e" 0 "m_outputQueue p", OF assms(2,3,4)]
  by (simp add: getResult_def dequeue_def split: prod.splits)

lemma getResult_never:
  assumes "0 < timeoutMs"
    and "\<And>k. k \<le> wakeups e \<Longrightarrow> \<not> notEmpty_pred (rounds k (others e) 0 (m_outputQueue p))"
  shows "getResult timeoutMs e p
      = Some (None, p\<lparr>m_outputQueue := rounds (wakeups e) (others e) 0 (m_outputQueue p)\<rparr>)"
  using assms(1) wait_for_never [of "wakeups e" notEmpty_pred "others e" 0 "m_outputQueue p", OF assms(2)]
  by (simp add: getResult_def dequeue_def)

lemma getResult_arrival:
  assumes "0 < timeoutMs" and "m_queue (m_outputQueue p) = []" and "\<not> m_shutdown (m_outputQueue p)"
    and "0 < m_maxSize (m_outputQueue p)"
    and "k < wakeups e" and "\<And>j. j < k \<Longrightarrow> others e j = []" and "others e k = [OtherPush x]"
  shows "getResult timeoutMs e p = Some (Some x, p)"
proof -
  let ?q = "m_outputQueue p"
  have pre: "rounds j (others e) 0 ?q = ?q" if "j \<le> k" for j
    using that assms(6) by (intro rounds_quiet_prefix) simp
  have ne: "\<not> notEmpty_pred ?q" using assms(2,3) by (simp add: notEmpty_pred_def)
  have nf: "notFull_pred ?q" using assms(2,3,4) by (simp add: notFull_pred_def)
  have r: "rounds (Suc k) (others e) 0 ?q = ?q\<lparr>m_queue := [x]\<rparr>"
    using pre [of k] assms(7,2,3) nf
    by (simp add: rounds_Suc_end enqueue_tail_def del: rounds.simps)
  have "getResult timeoutMs e p
      = Some (fst (dequeue_tail (rounds (Suc k) (others e) 0 ?q)),
              p\<lparr>m_outputQueue := snd (dequeue_tail (rounds (Suc k) (others e) 0 ?q))\<rparr>)"
  proof (rule getResult_first [OF assms(1)])
    show "Suc k \<le> wakeups e" using assms(5) by simp
    show "notEmpty_pred (rounds (Suc k) (others e) 0 ?q)" unfolding r by (simp add: notEmpty_pred_def)
    show "\<not> notEmpty_pred (rounds j (others e) 0 ?q)" if "j < Suc k" for j
      using pre [of j] that ne by simp
  qed
  moreover have "?q\<lparr>m_queue := [x], m_queue := []\<rparr> = ?q"
    using assms(2) by (cases ?q) simp
  ultimately show ?thesis unfolding r by (simp add: dequeue_tail_def)
qed

lemma getResult_no_arrival:
  assumes "0 < timeoutMs" and "m_queue (m_outputQueue p) = []" and "\<not> m_shutdown (m_outputQueue p)"
    and "\<And>j. j < wakeups e \<Longrightarrow> others e j = []"
  shows "getResult timeoutMs e p = Some (None, p)"
proof -
  let ?q = "m_outputQueue p"
  have pre: "rounds j (others e) 0 ?q = ?q" if "j \<le> wakeups e" for j
    using that assms(4) by (intro rounds_quiet_prefix) simp
  have ne: "\<not> notEmpty_pred ?q" using assms(2,3) by (simp add: notEmpty_pred_def)
  have "getResult timeoutMs e p
      = Some (None, p\<lparr>m_outputQueue := rounds (wakeups e) (others e) 0 ?q\<rparr>)"
    using pre ne by (intro getResult_never [OF assms(1)]) simp
  then show ?thesis using pre [of "wakeups e"] by simp
qed

text \<open>
  Claim C10. When \<^verbatim>\<open>stop()\<close> has returned, the output queue's shutdown flag is what
  it was, while the input queue's is set if the pipeline was running. The results that
  were in the output queue are still at its front, in order: \<^verbatim>\<open>getResults\<close> for up to
  that many returns them (with any timeout), and \<^verbatim>\<open>getResult\<close> returns the first. On
  an output queue that is empty after the stop and not shut down, \<^verbatim>\<open>getResult\<close> with
  a positive timeout does not give up at once but waits: when another thread pushes an
  item during any of the caller's sleeps before the timeout, nothing having happened
  before, the call returns that item; when nothing happens before the timeout, or other
  threads only dequeue, it returns the empty result, whatever happens later. In
  general the call returns the front of the queue as it is at the first wake-up at
  which it is not empty (or shut down), and the empty result when there is no such
  wake-up up to the timeout. (Without a timeout it would not return, see
  \<open>getResult_empty_untimed_blocks\<close>.)
\<close>

theorem stop_spares_output_queue:
  assumes "stop sched p = Some p'"
  shows "m_shutdown (m_outputQueue p') = m_shutdown (m_outputQueue p)
     \<and> (m_isRunning p \<longrightarrow> m_shutdown (m_inputQueue p'))
     \<and> take (length (m_queue (m_outputQueue p))) (m_queue (m_outputQueue p')) = m_queue (m_outputQueue p)
     \<and> (n \<le> length (m_queue (m_outputQueue p)) \<longrightarrow>
          getResults n timeoutMs es p'
            = Some (take n (m_queue (m_outputQueue p)),
                    p'\<lparr>m_outputQueue := (m_outputQueue p')\<lparr>m_queue := drop n (m_queue (m_outputQueue p'))\<rparr>\<rparr>))
     \<and> (m_queue (m_outputQueue p) \<noteq> [] \<longrightarrow>
          getResult timeoutMs e p'
            = Some (Some (hd (m_queue (m_outputQueue p))),
                    p'\<lparr>m_outputQueue := (m_outputQueue p')\<lparr>m_queue := tl (m_queue (m_outputQueue p'))\<rparr>\<rparr>))
     \<and> (m_queue (m_outputQueue p') = [] \<and> \<not> m_shutdown (m_outputQueue p) \<and> 0 < timeoutMs
          \<and> (\<forall>i. list_all (\<lambda>a. a = OtherPop) (others e i)) \<longrightarrow>
          wait_for notEmpty_pred (wakeups e) (others e) 0 (m_outputQueue p') = (False, m_outputQueue p')
          \<and> getResult timeoutMs e p' = Some (None, p'))
     \<and> (m_queue (m_outputQueue p') = [] \<and> \<not> m_shutdown (m_outputQueue p) \<and> 0 < timeoutMs \<longrightarrow>
          (\<forall>k x. 0 < m_maxSize (m_outputQueue p') \<and> k < wakeups e
                \<and> (\<forall>j<k. others e j = []) \<and> others e k = [OtherPush x] \<longrightarrow>
             getResult timeoutMs e p' = Some (Some x, p'))
          \<and> ((\<forall>j<wakeups e. others e j = []) \<longrightarrow> getResult timeoutMs e p' = Some (None, p')))
     \<and> (0 < timeoutMs \<longrightarrow>
          (\<forall>k. k \<le> wakeups e \<and> notEmpty_pred (rounds k (others e) 0 (m_outputQueue p'))
                \<and> (\<forall>j<k. \<not> notEmpty_pred (rounds j (others e) 0 (m_outputQueue p'))) \<longrightarrow>
             getResult timeoutMs e p'
               = Some (fst (dequeue_tail (rounds k (others e) 0 (m_outputQueue p'))),
                       p'\<lparr>m_outputQueue := snd (dequeue_tail (rounds k (others e) 0 (m_outputQueue p')))\<rparr>))
          \<and> ((\<forall>k\<le>wakeups e. \<not> notEmpty_pred (rounds k (others e) 0 (m_outputQueue p'))) \<longrightarrow>
             getResult timeoutMs e p'
               = Some (None, p'\<lparr>m_outputQueue := rounds (wakeups e) (others e) 0 (m_outputQueue p')\<rparr>)))"
proof -
  from stop_output [OF assms] obtain ys
    where sh: "m_shutdown (m_outputQueue p') = m_shutdown (m_outputQueue p)"
      and ys: "m_queue (m_outputQueue p') = m_queue (m_outputQueue p) @ ys"
    by blast
  have a: "m_isRunning p \<longrightarrow> m_shutdown (m_inputQueue p')"
    using stop_running [OF assms] by simp
  have b: "take (length (m_queue (m_outputQueue p))) (m_queue (m_outputQueue p')) = m_queue (m_outputQueue p)"
    using ys by simp
  have c: "n \<le> length (m_queue (m_outputQueue p)) \<longrightarrow>
          getResults n timeoutMs es p'
            = Some (take n (m_queue (m_outputQueue p)),
                    p'\<lparr>m_outputQueue := (m_outputQueue p')\<lparr>m_queue := drop n (m_queue (m_outputQueue p'))\<rparr>\<rparr>)"
  proof
    assume n: "n \<le> length (m_queue (m_outputQueue p))"
    then have "n \<le> length (m_queue (m_outputQueue p'))" using ys by simp
    from getResults_loop_enough [OF this, of timeoutMs es 0 "[]"] n ys
    show "getResults n timeoutMs es p'
            = Some (take n (m_queue (m_outputQueue p)),
                    p'\<lparr>m_outputQueue := (m_outputQueue p')\<lparr>m_queue := drop n (m_queue (m_outputQueue p'))\<rparr>\<rparr>)"
      by (simp add: getResults_def)
  qed
  have d: "m_queue (m_outputQueue p) \<noteq> [] \<longrightarrow>
          getResult timeoutMs e p'
            = Some (Some (hd (m_queue (m_outputQueue p))),
                    p'\<lparr>m_outputQueue := (m_outputQueue p')\<lparr>m_queue := tl (m_queue (m_outputQueue p'))\<rparr>\<rparr>)"
  proof
    assume "m_queue (m_outputQueue p) \<noteq> []"
    then obtain x xs where x: "m_queue (m_outputQueue p) = x # xs"
      by (cases "m_queue (m_outputQueue p)") auto
    then have "m_queue (m_outputQueue p') = x # (xs @ ys)" using ys by simp
    then show "getResult timeoutMs e p'
            = Some (Some (hd (m_queue (m_outputQueue p))),
                    p'\<lparr>m_outputQueue := (m_outputQueue p')\<lparr>m_queue := tl (m_queue (m_outputQueue p'))\<rparr>\<rparr>)"
      using x by (simp add: getResult_def dequeue_ready notEmpty_pred_def dequeue_tail_def)
  qed
  have f: "m_queue (m_outputQueue p') = [] \<and> \<not> m_shutdown (m_outputQueue p) \<and> 0 < timeoutMs
          \<and> (\<forall>i. list_all (\<lambda>a. a = OtherPop) (others e i)) \<longrightarrow>
          wait_for notEmpty_pred (wakeups e) (others e) 0 (m_outputQueue p') = (False, m_outputQueue p')
          \<and> getResult timeoutMs e p' = Some (None, p')"
  proof
    assume h: "m_queue (m_outputQueue p') = [] \<and> \<not> m_shutdown (m_outputQueue p) \<and> 0 < timeoutMs
          \<and> (\<forall>i. list_all (\<lambda>a. a = OtherPop) (others e i))"
    then have w: "wait_for notEmpty_pred (wakeups e) (others e) 0 (m_outputQueue p') = (False, m_outputQueue p')"
      using sh by (intro wait_for_notEmpty_pops) simp_all
    then have "dequeue timeoutMs e (m_outputQueue p') = Some (None, m_outputQueue p')"
      using h by (simp add: dequeue_def)
    then have "getResult timeoutMs e p' = Some (None, p')"
      by (simp add: getResult_def)
    with w show "wait_for notEmpty_pred (wakeups e) (others e) 0 (m_outputQueue p') = (False, m_outputQueue p')
          \<and> getResult timeoutMs e p' = Some (None, p')" ..
  qed
  have g: "m_queue (m_outputQueue p') = [] \<and> \<not> m_shutdown (m_outputQueue p) \<and> 0 < timeoutMs \<longrightarrow>
          (\<forall>k x. 0 < m_maxSize (m_outputQueue p') \<and> k < wakeups e
                \<and> (\<forall>j<k. others e j = []) \<and> others e k = [OtherPush x] \<longrightarrow>
             getResult timeoutMs e p' = Some (Some x, p'))
          \<and> ((\<forall>j<wakeups e. others e j = []) \<longrightarrow> getResult timeoutMs e p' = Some (None, p'))"
  proof (intro impI conjI allI)
    fix k x
    assume h: "m_queue (m_outputQueue p') = [] \<and> \<not> m_shutdown (m_outputQueue p) \<and> 0 < timeoutMs"
      and i: "0 < m_maxSize (m_outputQueue p') \<and> k < wakeups e
                \<and> (\<forall>j<k. others e j = []) \<and> others e k = [OtherPush x]"
    show "getResult timeoutMs e p' = Some (Some x, p')"
      using h i sh by (intro getResult_arrival [where k = k]) simp_all
  next
    assume h: "m_queue (m_outputQueue p') = [] \<and> \<not> m_shutdown (m_outputQueue p) \<and> 0 < timeoutMs"
      and i: "\<forall>j<wakeups e. others e j = []"
    show "getResult timeoutMs e p' = Some (None, p')"
      using h i sh by (intro getResult_no_arrival) simp_all
  qed
  have w: "0 < timeoutMs \<longrightarrow>
          (\<forall>k. k \<le> wakeups e \<and> notEmpty_pred (rounds k (others e) 0 (m_outputQueue p'))
                \<and> (\<forall>j<k. \<not> notEmpty_pred (rounds j (others e) 0 (m_outputQueue p'))) \<longrightarrow>
             getResult timeoutMs e p'
               = Some (fst (dequeue_tail (rounds k (others e) 0 (m_outputQueue p'))),
                       p'\<lparr>m_outputQueue := snd (dequeue_tail (rounds k (others e) 0 (m_outputQueue p')))\<rparr>))
          \<and> ((\<forall>k\<le>wakeups e. \<not> notEmpty_pred (rounds k (others e) 0 (m_outputQueue p'))) \<longrightarrow>
             getResult timeoutMs e p'
               = Some (None, p'\<lparr>m_outputQueue := rounds (wakeups e) (others e) 0 (m_outputQueue p')\<rparr>))"
  proof (intro impI conjI allI)
    fix k
    assume t: "0 < timeoutMs"
      and i: "k \<le> wakeups e \<and> notEmpty_pred (rounds k (others e) 0 (m_outputQueue p'))
                \<and> (\<forall>j<k. \<not> notEmpty_pred (rounds j (others e) 0 (m_outputQueue p')))"
    show "getResult timeoutMs e p'
               = Some (fst (dequeue_tail (rounds k (others e) 0 (m_outputQueue p'))),
                       p'\<lparr>m_outputQueue := snd (dequeue_tail (rounds k (others e) 0 (m_outputQueue p')))\<rparr>)"
      using i by (intro getResult_first [OF t]) simp_all
  next
    assume t: "0 < timeoutMs"
      and i: "\<forall>k\<le>wakeups e. \<not> notEmpty_pred (rounds k (others e) 0 (m_outputQueue p'))"
    show "getResult timeoutMs e p'
               = Some (None, p'\<lparr>m_outputQueue := rounds (wakeups e) (others e) 0 (m_outputQueue p')\<rparr>)"
      using i by (intro getResult_never [OF t]) simp_all
  qed
  from sh a b c d f g w show ?thesis by (intro conjI)
qed

theorem stop_spares_output_queue_witness:
  "stop (round_robin 1) example_busy = Some example_drained
   \<and> \<not> m_shutdown (m_outputQueue example_drained)
   \<and> m_shutdown (m_inputQueue example_drained)
   \<and> take 1 (m_queue (m_outputQueue example_drained)) = [4]
   \<and> getResults 1 100 quiet_each example_drained
       = Some ([4], example_drained\<lparr>m_outputQueue := (DataQueue 3)\<lparr>m_queue := [10]\<rparr>\<rparr>)
   \<and> getResult 1000 (quiet 0) example_drained
       = Some (Some 4, example_drained\<lparr>m_outputQueue := (DataQueue 3)\<lparr>m_queue := [10]\<rparr>\<rparr>)
   \<and> stop (round_robin 1) example_running = Some example_stopped
   \<and> getResult 1000 (quiet 0) example_stopped = Some (None, example_stopped)
   \<and> getResult 1000 (arrives 3 2 9) example_stopped = Some (Some 9, example_stopped)
   \<and> getResult 1000 (arrives 3 0 9) example_stopped = Some (Some 9, example_stopped)
   \<and> getResult 1000 (arrives 2 2 9) example_stopped = Some (None, example_stopped)"
proof -
  note d = stop_spares_output_queue [OF example_drain, where n = 1 and timeoutMs = 100 and es = quiet_each]
  note g = stop_spares_output_queue [OF example_drain, where timeoutMs = 1000 and e = "quiet 0"]
  note e = stop_spares_output_queue [OF example_stop, where timeoutMs = 1000 and e = "quiet 0"]
  note a = stop_spares_output_queue [OF example_stop, where timeoutMs = 1000 and e = "arrives 3 2 9",
      THEN conjunct2, THEN conjunct2, THEN conjunct2, THEN conjunct2, THEN conjunct2, THEN conjunct2,
      THEN conjunct1]
  note a0 = stop_spares_output_queue [OF example_stop, where timeoutMs = 1000 and e = "arrives 3 0 9",
      THEN conjunct2, THEN conjunct2, THEN conjunct2, THEN conjunct2, THEN conjunct2, THEN conjunct2,
      THEN conjunct1]
  note l = stop_spares_output_queue [OF example_stop, where timeoutMs = 1000 and e = "arrives 2 2 9",
      THEN conjunct2, THEN conjunct2, THEN conjunct2, THEN conjunct2, THEN conjunct2, THEN conjunct2,
      THEN conjunct1]
  have h: "m_queue (m_outputQueue example_stopped) = [] \<and> \<not> m_shutdown (m_outputQueue example_running)
      \<and> (0::int) < 1000"
    by (simp add: start_def setProcessor_def ProcessingSystem_def DataQueue_def Let_def)
  have 1: "\<not> m_shutdown (m_outputQueue example_drained)"
    using d [THEN conjunct1] by (simp add: DataQueue_def)
  have 2: "m_shutdown (m_inputQueue example_drained)"
    using d [THEN conjunct2, THEN conjunct1] by simp
  have 3: "take 1 (m_queue (m_outputQueue example_drained)) = [4]"
    using d [THEN conjunct2, THEN conjunct2, THEN conjunct1] by simp
  have 4: "getResults 1 100 quiet_each example_drained
       = Some ([4], example_drained\<lparr>m_outputQueue := (DataQueue 3)\<lparr>m_queue := [10]\<rparr>\<rparr>)"
    using d [THEN conjunct2, THEN conjunct2, THEN conjunct2, THEN conjunct1] by (simp add: DataQueue_def)
  have 5: "getResult 1000 (quiet 0) example_drained
       = Some (Some 4, example_drained\<lparr>m_outputQueue := (DataQueue 3)\<lparr>m_queue := [10]\<rparr>\<rparr>)"
    using g [THEN conjunct2, THEN conjunct2, THEN conjunct2, THEN conjunct2, THEN conjunct1]
    by (simp add: DataQueue_def)
  have 6: "getResult 1000 (quiet 0) example_stopped = Some (None, example_stopped)"
    using e [THEN conjunct2, THEN conjunct2, THEN conjunct2, THEN conjunct2, THEN conjunct2, THEN conjunct1]
    by (simp add: DataQueue_def ProcessingSystem_def start_def setProcessor_def quiet_def)
  have 7: "getResult 1000 (arrives 3 2 9) example_stopped = Some (Some 9, example_stopped)"
    by (rule a [THEN mp, OF h, THEN conjunct1, rule_format, where k = 2 and x = 9])
      (simp add: arrives_def)
  have 8: "getResult 1000 (arrives 3 0 9) example_stopped = Some (Some 9, example_stopped)"
    by (rule a0 [THEN mp, OF h, THEN conjunct1, rule_format, where k = 0 and x = 9])
      (simp add: arrives_def)
  have 9: "getResult 1000 (arrives 2 2 9) example_stopped = Some (None, example_stopped)"
    by (rule l [THEN mp, OF h, THEN conjunct2, rule_format]) (simp add: arrives_def)
  from example_drain 1 2 3 4 5 example_stop 6 7 8 9 show ?thesis by - (intro conjI; assumption)
qed

end
